theory Spec2Isabelle
  imports Main "HOL-Library.Word" "HOL-Library.Sublist"
begin

section \<open>Data model of gltfViewer.cpp\<close>

type_synonym u8 = "8 word"
type_synonym u16 = "16 word"
type_synonym u32 = "32 word"
type_synonym size_t = "64 word"

text \<open>
  Outcomes other than a normal return. \<open>RuntimeError msg g\<close> is a thrown
  \<^verbatim>\<open>std::runtime_error\<close> together with the file-scope globals at the throw;
  \<open>OutOfBounds\<close> is an access outside a \<^verbatim>\<open>std::vector\<close> or a mapped buffer
  (undefined behaviour in C++); \<open>OutOfFuel\<close> is a recursion that has not returned
  within the given depth; \<open>SignedOverflow\<close> is \<^verbatim>\<open>i++\<close> on an \<^verbatim>\<open>int\<close> holding INT_MAX.
\<close>

datatype 's error = RuntimeError string 's | OutOfBounds | OutOfFuel | SignedOverflow

text \<open>
  \<^verbatim>\<open>struct Vertex\<close>, \<^verbatim>\<open>struct DrawCmd\<close>, \<^verbatim>\<open>struct ShaderUniform\<close>. The type \<open>'f\<close> stands
  for \<^verbatim>\<open>float\<close>, \<open>'m\<close> for \<^verbatim>\<open>glm::mat4\<close>, \<open>'d\<close> for \<^verbatim>\<open>double\<close>; a \<^verbatim>\<open>glm::vec3\<close> is
  a triple of floats.
\<close>

record 'f Vertex =
  pos :: "'f \<times> 'f \<times> 'f"
  color :: "'f \<times> 'f \<times> 'f"

record 'm DrawCmd =
  indexCount :: u32
  firstIndex :: u32
  vertexOffset :: u32
  transform :: 'm

record 'm ShaderUniform =
  modelMtx :: 'm
  viewProjMtx :: 'm

text \<open>
  The file-scope mutable globals. The two shader strings, which only the set-up of the
  pipeline reads, are left out.
\<close>

record ('f, 'm) globals =
  vertices :: "'f Vertex list"
  indicies :: "u32 list"
  drawObjects :: "'m DrawCmd list"
  viewMtx :: 'm
  projMtx :: 'm

text \<open>
  The tinygltf structures, with the fields the code reads. \<^verbatim>\<open>int\<close> fields are
  \<open>int\<close>, \<^verbatim>\<open>size_t\<close> fields are 64-bit words, \<^verbatim>\<open>std::map<std::string, int>\<close> is a map.
\<close>

record Buffer =
  data :: "u8 list"

record BufferView =
  buffer :: int
  bv_byteOffset :: size_t
  byteStride :: size_t

record Accessor =
  bufferView :: int
  acc_byteOffset :: size_t
  componentType :: int
  acc_count :: size_t
  acc_type :: int

record Primitive =
  attributes :: "string \<rightharpoonup> int"
  indices :: int

record Mesh =
  primitives :: "Primitive list"

record 'd Node =
  matrix :: "'d list"
  mesh :: int
  children :: "int list"

record Scene =
  scene_nodes :: "int list"

record 'd Model =
  nodes :: "'d Node list"
  meshes :: "Mesh list"
  accessors :: "Accessor list"
  bufferViews :: "BufferView list"
  buffers :: "Buffer list"
  scenes :: "Scene list"
  defaultScene :: int

text \<open>
  The library functions the code calls and the platform's reading of memory, none of
  which is under src/; they are parameters of the model.
  \<^item> \<open>ByteStride\<close>: \<^verbatim>\<open>tinygltf::Accessor::ByteStride(bufferView)\<close>, an \<^verbatim>\<open>int\<close>;
  \<^item> \<open>mat4_16\<close>: the constructor \<^verbatim>\<open>glm::mat4(x0, ..., x15)\<close> applied to 16 doubles;
  \<^item> \<open>mat4_diag1\<close>: \<^verbatim>\<open>glm::mat4(1.0)\<close>; \<open>mat4_mul a b\<close>: the glm product \<^verbatim>\<open>a * b\<close>;
  \<^item> \<open>float_at bs\<close>: the \<^verbatim>\<open>float\<close> whose object representation is the 4 bytes \<open>bs\<close>;
  \<^item> \<open>uint16_at bs\<close>: the \<^verbatim>\<open>uint16_t\<close> whose object representation is the 2 bytes \<open>bs\<close>;
  \<^item> \<open>float_0_7\<close>: the \<^verbatim>\<open>float\<close> that the literal \<^verbatim>\<open>0.7\<close> converts to.
\<close>

record ('d, 'f, 'm) lib =
  ByteStride :: "Accessor \<Rightarrow> BufferView \<Rightarrow> int"
  mat4_16 :: "'d list \<Rightarrow> 'm"
  mat4_diag1 :: 'm
  mat4_mul :: "'m \<Rightarrow> 'm \<Rightarrow> 'm"
  float_at :: "u8 list \<Rightarrow> 'f"
  uint16_at :: "u8 list \<Rightarrow> u16"
  float_0_7 :: 'f

section \<open>Control structure\<close>

definition and_then :: "'e + 'a \<Rightarrow> ('a \<Rightarrow> 'e + 'b) \<Rightarrow> 'e + 'b" where
  "and_then m f = (case m of Inl e \<Rightarrow> Inl e | Inr x \<Rightarrow> f x)"

text \<open>A range-based or counting \<^verbatim>\<open>for\<close> loop whose body may fail.\<close>

fun for_each :: "'a list \<Rightarrow> ('a \<Rightarrow> 's \<Rightarrow> 'e + 's) \<Rightarrow> 's \<Rightarrow> 'e + 's" where
  "for_each [] body s = Inr s"
| "for_each (x # xs) body s = and_then (body x s) (for_each xs body)"

text \<open>\<^verbatim>\<open>v[i]\<close> on a \<^verbatim>\<open>std::vector\<close>: unchecked in C++, an error here when out of range.\<close>

definition at :: "'a list \<Rightarrow> int \<Rightarrow> 's error + 'a" where
  "at xs i = (if 0 \<le> i \<and> i < int (length xs) then Inr (xs ! nat i) else Inl OutOfBounds)"

text \<open>The \<open>n\<close> bytes of a buffer that start at byte \<open>off\<close>.\<close>

definition bytes_at :: "u8 list \<Rightarrow> nat \<Rightarrow> nat \<Rightarrow> u8 list" where
  "bytes_at bs off n = take n (drop off bs)"

section \<open>load\_gltf\_node\<close>

text \<open>
  Lines 78-85. The 16 reads of \<^verbatim>\<open>node.matrix\<close> are in the branch guarded by
  \<^verbatim>\<open>node.matrix.size() == 16\<close>.
\<close>

definition node_local_transform :: "('d, 'f, 'm) lib \<Rightarrow> 'd Node \<Rightarrow> ('f, 'm) globals error + 'm" where
  "node_local_transform L node =
     (if length (matrix node) = 16 then
        and_then (at (matrix node) 0) (\<lambda>m0.
        and_then (at (matrix node) 1) (\<lambda>m1.
        and_then (at (matrix node) 2) (\<lambda>m2.
        and_then (at (matrix node) 3) (\<lambda>m3.
        and_then (at (matrix node) (4 + 0)) (\<lambda>m4.
        and_then (at (matrix node) (4 + 1)) (\<lambda>m5.
        and_then (at (matrix node) (4 + 2)) (\<lambda>m6.
        and_then (at (matrix node) (4 + 3)) (\<lambda>m7.
        and_then (at (matrix node) (8 + 0)) (\<lambda>m8.
        and_then (at (matrix node) (8 + 1)) (\<lambda>m9.
        and_then (at (matrix node) (8 + 2)) (\<lambda>m10.
        and_then (at (matrix node) (8 + 3)) (\<lambda>m11.
        and_then (at (matrix node) (12 + 0)) (\<lambda>m12.
        and_then (at (matrix node) (12 + 1)) (\<lambda>m13.
        and_then (at (matrix node) (12 + 2)) (\<lambda>m14.
        and_then (at (matrix node) (12 + 3)) (\<lambda>m15.
          Inr (mat4_16 L [m0, m1, m2, m3, m4, m5, m6, m7,
                          m8, m9, m10, m11, m12, m13, m14, m15])))))))))))))))))
      else Inr (mat4_diag1 L))"

text \<open>
  Lines 124-132, one iteration: the address is
  \<^verbatim>\<open>data + bufferView.byteOffset + accessor.byteOffset + stride * index\<close>, the product taken
  in \<^verbatim>\<open>size_t\<close>; three floats (12 bytes) are read there.
\<close>

definition push_vertex ::
  "('d, 'f, 'm) lib \<Rightarrow> Buffer \<Rightarrow> BufferView \<Rightarrow> Accessor \<Rightarrow> size_t \<Rightarrow> nat \<Rightarrow>
   ('f, 'm) globals \<Rightarrow> ('f, 'm) globals error + ('f, 'm) globals" where
  "push_vertex L positionBuffer positionBufferView positionAccessor positionBufferStride index g =
     (let elementBase = unat (bv_byteOffset positionBufferView)
                        + unat (acc_byteOffset positionAccessor)
                        + unat (positionBufferStride * of_nat index)
      in if elementBase + 12 \<le> length (data positionBuffer) then
           Inr (g\<lparr>vertices := vertices g @
             [\<lparr>pos = (float_at L (bytes_at (data positionBuffer) elementBase 4),
                      float_at L (bytes_at (data positionBuffer) (elementBase + 4) 4),
                      float_at L (bytes_at (data positionBuffer) (elementBase + 8) 4)),
               color = (float_0_7 L, float_0_7 L, float_0_7 L)\<rparr>]\<rparr>)
         else Inl OutOfBounds)"

text \<open>Lines 135-139, one iteration: one \<^verbatim>\<open>uint16_t\<close> (2 bytes) is read and widened.\<close>

definition push_index ::
  "('d, 'f, 'm) lib \<Rightarrow> Buffer \<Rightarrow> BufferView \<Rightarrow> Accessor \<Rightarrow> size_t \<Rightarrow> nat \<Rightarrow>
   ('f, 'm) globals \<Rightarrow> ('f, 'm) globals error + ('f, 'm) globals" where
  "push_index L indexBuffer indexBufferView indexAccessor indexBufferStride index g =
     (let elementBase = unat (bv_byteOffset indexBufferView)
                        + unat (acc_byteOffset indexAccessor)
                        + unat (indexBufferStride * of_nat index)
      in if elementBase + 2 \<le> length (data indexBuffer) then
           Inr (g\<lparr>indicies := indicies g @
             [ucast (uint16_at L (bytes_at (data indexBuffer) elementBase 2))]\<rparr>)
         else Inl OutOfBounds)"

text \<open>
  Lines 98-148, the body of the loop over \<^verbatim>\<open>mesh.primitives\<close>.
  \<^verbatim>\<open>primitive.attributes["POSITION"]\<close> is \<^verbatim>\<open>std::map::operator[]\<close>: a missing key reads
  as 0 (and is inserted, which no later read can tell from the missing key). The
  \<^verbatim>\<open>spdlog\<close> calls only print.
\<close>

definition load_primitive ::
  "('d, 'f, 'm) lib \<Rightarrow> 'd Model \<Rightarrow> 'm \<Rightarrow> Primitive \<Rightarrow>
   ('f, 'm) globals \<Rightarrow> ('f, 'm) globals error + ('f, 'm) globals" where
  "load_primitive L model localTransform primitive g =
     and_then (at (accessors model)
                 (case attributes primitive ''POSITION'' of None \<Rightarrow> 0 | Some a \<Rightarrow> a))
       (\<lambda>positionAccessor.
     and_then (at (bufferViews model) (bufferView positionAccessor)) (\<lambda>positionBufferView.
     and_then (at (buffers model) (buffer positionBufferView)) (\<lambda>positionBuffer.
     let positionBufferStride = (of_int (ByteStride L positionAccessor positionBufferView) :: size_t) in
     and_then (at (accessors model) (indices primitive)) (\<lambda>indexAccessor.
     and_then (at (bufferViews model) (bufferView indexAccessor)) (\<lambda>indexBufferView.
     and_then (at (buffers model) (buffer indexBufferView)) (\<lambda>indexBuffer.
     let indexBufferStride = (of_int (ByteStride L indexAccessor indexBufferView) :: size_t);
         startVertex = length (vertices g);
         startIndex = length (indicies g) in
     and_then (for_each [0 ..< unat (acc_count positionAccessor)]
                 (push_vertex L positionBuffer positionBufferView positionAccessor
                    positionBufferStride) g) (\<lambda>g1.
     and_then (for_each [0 ..< unat (acc_count indexAccessor)]
                 (push_index L indexBuffer indexBufferView indexAccessor
                    indexBufferStride) g1) (\<lambda>g2.
     Inr (g2\<lparr>drawObjects := drawObjects g2 @
            [\<lparr>indexCount = ucast (acc_count indexAccessor),
              firstIndex = of_nat startIndex,
              vertexOffset = of_nat startVertex,
              transform = localTransform\<rparr>]\<rparr>)))))))))"

text \<open>Lines 90-149: the mesh of a node, when it has one.\<close>

definition load_mesh ::
  "('d, 'f, 'm) lib \<Rightarrow> 'd Model \<Rightarrow> 'd Node \<Rightarrow> 'm \<Rightarrow>
   ('f, 'm) globals \<Rightarrow> ('f, 'm) globals error + ('f, 'm) globals" where
  "load_mesh L model node localTransform g =
     (if mesh node \<ge> 0 then
        and_then (at (meshes model) (mesh node)) (\<lambda>mesh'.
          for_each (primitives mesh') (load_primitive L model localTransform) g)
      else Inr g)"

text \<open>
  Lines 73-156. The recursion follows \<^verbatim>\<open>node.children\<close> and need not end (a node may
  be its own descendant), so the model carries the recursion depth it may use.
\<close>

fun load_gltf_node ::
  "('d, 'f, 'm) lib \<Rightarrow> nat \<Rightarrow> 'd Model \<Rightarrow> int \<Rightarrow> 'm \<Rightarrow>
   ('f, 'm) globals \<Rightarrow> ('f, 'm) globals error + ('f, 'm) globals" where
  "load_gltf_node L 0 model nodeId transform' g = Inl OutOfFuel"
| "load_gltf_node L (Suc fuel) model nodeId transform' g =
     and_then (at (nodes model) nodeId) (\<lambda>node.
     and_then (node_local_transform L node) (\<lambda>localTransform0.
     let localTransform = mat4_mul L localTransform0 transform' in
     and_then (load_mesh L model node localTransform g) (\<lambda>g1.
       for_each (children node)
         (\<lambda>childNodeId s. load_gltf_node L fuel model childNodeId localTransform s) g1)))"

section \<open>load\_gltf\_model\<close>

text \<open>
  What \<^verbatim>\<open>loader.LoadASCIIFromFile(&model, &err, &warn, model_file)\<close> hands back: the
  loader and the file are outside the program.
\<close>

record 'd loaded =
  ret :: bool
  err :: string
  warn :: string
  ld_model :: "'d Model"

text \<open>Lines 159-199. A non-empty \<^verbatim>\<open>warn\<close> is only printed.\<close>

definition load_gltf_model ::
  "('d, 'f, 'm) lib \<Rightarrow> nat \<Rightarrow> 'd loaded \<Rightarrow>
   ('f, 'm) globals \<Rightarrow> ('f, 'm) globals error + ('f, 'm) globals" where
  "load_gltf_model L fuel ld g =
     (if err ld \<noteq> [] then Inl (RuntimeError ''glTF parsing error'' g)
      else if \<not> ret ld then Inl (RuntimeError ''Fail to parse glTF'' g)
      else
        and_then (at (scenes (ld_model ld)) (defaultScene (ld_model ld))) (\<lambda>scene.
        let transform' = mat4_diag1 L in
        for_each (scene_nodes scene)
          (\<lambda>sceneRootNodeId s. load_gltf_node L fuel (ld_model ld) sceneRootNodeId transform' s) g))"

section \<open>The callbacks of main\<close>

text \<open>
  What the renderer hands to one call of the render callback: \<^verbatim>\<open>r.getWidth()\<close>,
  \<^verbatim>\<open>r.getHeight()\<close>, \<^verbatim>\<open>ctx.time\<close> and \<^verbatim>\<open>ctx.imageIndex\<close>. \<^verbatim>\<open>Renderer\<close> and
  \<^verbatim>\<open>Renderer::Context\<close> are declared outside src/; \<open>'t\<close> is the type of \<^verbatim>\<open>ctx.time\<close>.
\<close>

record 't frame =
  width :: int
  height :: int
  time :: 't
  imageIndex :: nat

text \<open>
  The floating-point expressions of lines 280-282, as functions of what they read:
  \<open>lookAt_at t\<close> is \<^verbatim>\<open>glm::lookAt(vec3(cos t, cos (t * 0.5), sin t), vec3(0.0), vec3(0, 1, 0))\<close>
  and \<open>perspective_for w h\<close> is \<^verbatim>\<open>glm::perspective(radians(45.0f), float(w) / float(h), 0.1f, 10.0f)\<close>
  with its entry \<^verbatim>\<open>[1][1]\<close> multiplied by \<^verbatim>\<open>-1.0\<close>.
\<close>

record ('t, 'm) camera =
  lookAt_at :: "'t \<Rightarrow> 'm"
  perspective_for :: "int \<Rightarrow> int \<Rightarrow> 'm"

text \<open>
  The calls made on \<^verbatim>\<open>ctx.cmdBuffer\<close>, in program order; the calls of the function
  handed to \<^verbatim>\<open>WithRenderPass\<close> are kept inside it (the renderer is taken to run that
  function once).
\<close>

datatype cmd =
    Begin
  | WithRenderPass nat int int "cmd list"
  | BindPipeline
  | BindVertexBuffer
  | BindIndexBuffer
  | BindGraphicsUniformBuffer nat nat
  | DrawIndexed u32 u32 u32
  | End

text \<open>
  The state the three callbacks of \<^verbatim>\<open>r.Run\<close> share: the globals, the contents of the
  three GPU buffers (the uniform buffer as its slots of one \<^verbatim>\<open>ShaderUniform\<close> each,
  \<open>None\<close> while never written), the number of framebuffers and the commands recorded
  for the current frame.
\<close>

record ('f, 'm) app =
  glob :: "('f, 'm) globals"
  vertexBufferGPU :: "'f Vertex list"
  indexBufferGPU :: "u32 list"
  uniformBufferGPU :: "'m ShaderUniform option list"
  framebuffers :: nat
  recorded :: "cmd list"

text \<open>\<^verbatim>\<open>sizeof(ShaderUniform)\<close>: two matrices of 16 four-byte floats.\<close>

definition sizeof_ShaderUniform :: nat where
  "sizeof_ShaderUniform = 128"

text \<open>
  Lines 227-275, for a swapchain of \<open>swapchainImages\<close> images: the vertex and index lists
  are copied to the GPU, the uniform buffer gets one slot per image and draw command, and
  one framebuffer is created per image.
\<close>

definition init :: "nat \<Rightarrow> ('f, 'm) globals \<Rightarrow> ('f, 'm) app" where
  "init swapchainImages g =
     \<lparr>glob = g,
      vertexBufferGPU = vertices g,
      indexBufferGPU = indicies g,
      uniformBufferGPU = replicate (swapchainImages * length (drawObjects g)) None,
      framebuffers = swapchainImages,
      recorded = []\<rparr>"

text \<open>Lines 285-292: the loop over \<^verbatim>\<open>drawObjects\<close> with its \<^verbatim>\<open>int i\<close>.\<close>

fun write_uniforms ::
  "('d, 'f, 'm) lib \<Rightarrow> nat \<Rightarrow> ('f, 'm) globals \<Rightarrow> int \<Rightarrow> 'm DrawCmd list \<Rightarrow>
   'm ShaderUniform option list \<Rightarrow> ('f, 'm) app error + 'm ShaderUniform option list" where
  "write_uniforms L img g i [] uniformBufferGPU' = Inr uniformBufferGPU'"
| "write_uniforms L img g i (drawCmd # rest) uniformBufferGPU' =
     (let slot = img * length (drawObjects g) + nat i in
      if slot < length uniformBufferGPU' then
        let written = uniformBufferGPU'
              [slot := Some \<lparr>modelMtx = transform drawCmd,
                              viewProjMtx = mat4_mul L (projMtx g) (viewMtx g)\<rparr>]
        in if i + 1 > 2147483647 then Inl SignedOverflow
           else write_uniforms L img g (i + 1) rest written
      else Inl OutOfBounds)"

text \<open>Lines 306-312: the loop that binds a slot and draws, once per draw command.\<close>

fun record_draws ::
  "nat \<Rightarrow> nat \<Rightarrow> int \<Rightarrow> 'm DrawCmd list \<Rightarrow> ('f, 'm) app error + cmd list" where
  "record_draws img n i [] = Inr []"
| "record_draws img n i (drawCmd # rest) =
     (if i + 1 > 2147483647 then Inl SignedOverflow
      else and_then (record_draws img n (i + 1) rest) (\<lambda>cmds.
        Inr (BindGraphicsUniformBuffer (sizeof_ShaderUniform * (img * n + nat i))
               sizeof_ShaderUniform
             # DrawIndexed (indexCount drawCmd) (firstIndex drawCmd) (vertexOffset drawCmd)
             # cmds)))"

text \<open>Lines 277-318: the render callback, for one frame.\<close>

definition render ::
  "('d, 'f, 'm) lib \<Rightarrow> ('t, 'm) camera \<Rightarrow> 't frame \<Rightarrow>
   ('f, 'm) app \<Rightarrow> ('f, 'm) app error + ('f, 'm) app" where
  "render L cam fr s =
     (let g = (glob s)\<lparr>viewMtx := lookAt_at cam (time fr),
                       projMtx := perspective_for cam (width fr) (height fr)\<rparr>
      in
      and_then (write_uniforms L (imageIndex fr) g 0 (drawObjects g)
                  (uniformBufferGPU s)) (\<lambda>ub.
      if imageIndex fr < framebuffers s then
        and_then (record_draws (imageIndex fr) (length (drawObjects g)) 0 (drawObjects g))
          (\<lambda>draws.
            Inr (s\<lparr>glob := g,
                   uniformBufferGPU := ub,
                   recorded := [Begin,
                                WithRenderPass (imageIndex fr) (width fr) (height fr)
                                  (BindPipeline # BindVertexBuffer # BindIndexBuffer # draws),
                                End]\<rparr>))
      else Inl OutOfBounds))"

text \<open>\<^verbatim>\<open>r.Run\<close> calls the render callback once per frame, after the init callback.\<close>

definition render_loop ::
  "('d, 'f, 'm) lib \<Rightarrow> ('t, 'm) camera \<Rightarrow> 't frame list \<Rightarrow>
   ('f, 'm) app \<Rightarrow> ('f, 'm) app error + ('f, 'm) app" where
  "render_loop L cam frames s = for_each frames (render L cam) s"

section \<open>Notions of the specification\<close>

text \<open>
  The accessors of a primitive, the buffer view and the buffer of an accessor, as the
  code looks them up (lines 100-113).
\<close>

definition position_accessor :: "'d Model \<Rightarrow> Primitive \<Rightarrow> Accessor" where
  "position_accessor model primitive =
     accessors model ! nat (case attributes primitive ''POSITION'' of None \<Rightarrow> 0 | Some a \<Rightarrow> a)"

definition index_accessor :: "'d Model \<Rightarrow> Primitive \<Rightarrow> Accessor" where
  "index_accessor model primitive = accessors model ! nat (indices primitive)"

definition view_of :: "'d Model \<Rightarrow> Accessor \<Rightarrow> BufferView" where
  "view_of model acc = bufferViews model ! nat (bufferView acc)"

definition buffer_of :: "'d Model \<Rightarrow> Accessor \<Rightarrow> Buffer" where
  "buffer_of model acc = buffers model ! nat (buffer (view_of model acc))"

text \<open>
  The byte offset of element \<open>index\<close> of an accessor within its buffer: the offset of
  the buffer view, plus \<^verbatim>\<open>byteOffset + stride * index\<close> (the product as the code takes it,
  in \<^verbatim>\<open>size_t\<close>).
\<close>

definition element_offset :: "('d, 'f, 'm) lib \<Rightarrow> 'd Model \<Rightarrow> Accessor \<Rightarrow> nat \<Rightarrow> nat" where
  "element_offset L model acc index =
     unat (bv_byteOffset (view_of model acc)) + unat (acc_byteOffset acc)
     + unat ((of_int (ByteStride L acc (view_of model acc)) :: size_t) * of_nat index)"

text \<open>The vertex read at an element: three consecutive floats, and the colour 0.7.\<close>

definition vertex_read :: "('d, 'f, 'm) lib \<Rightarrow> 'd Model \<Rightarrow> Accessor \<Rightarrow> nat \<Rightarrow> 'f Vertex" where
  "vertex_read L model acc index =
     \<lparr>pos = (float_at L (bytes_at (data (buffer_of model acc)) (element_offset L model acc index) 4),
             float_at L (bytes_at (data (buffer_of model acc)) (element_offset L model acc index + 4) 4),
             float_at L (bytes_at (data (buffer_of model acc)) (element_offset L model acc index + 8) 4)),
      color = (float_0_7 L, float_0_7 L, float_0_7 L)\<rparr>"

text \<open>The index read at an element: a 16-bit unsigned value, widened to 32 bits.\<close>

definition index_read :: "('d, 'f, 'm) lib \<Rightarrow> 'd Model \<Rightarrow> Accessor \<Rightarrow> nat \<Rightarrow> u32" where
  "index_read L model acc index =
     ucast (uint16_at L (bytes_at (data (buffer_of model acc)) (element_offset L model acc index) 2))"

text \<open>A draw command lies within the index and vertex buffers.\<close>

definition in_bounds :: "('f, 'm) globals \<Rightarrow> 'm DrawCmd \<Rightarrow> bool" where
  "in_bounds g d \<longleftrightarrow>
     unat (firstIndex d) + unat (indexCount d) \<le> length (indicies g)
     \<and> unat (vertexOffset d) \<le> length (vertices g)"

text \<open>
  From \<open>g\<close> to \<open>g'\<close> the three lists were extended at the end only, and every draw
  command appended lies within the buffers of \<open>g'\<close>.
\<close>

definition grows :: "('f, 'm) globals \<Rightarrow> ('f, 'm) globals \<Rightarrow> bool" where
  "grows g g' \<longleftrightarrow>
     prefix (vertices g) (vertices g') \<and> prefix (indicies g) (indicies g')
     \<and> prefix (drawObjects g) (drawObjects g')
     \<and> list_all (in_bounds g') (drop (length (drawObjects g)) (drawObjects g'))"

text \<open>
  The local transform of a node: the matrix built from \<^verbatim>\<open>node.matrix\<close> when that has
  exactly 16 elements, the identity otherwise.
\<close>

definition local_matrix :: "('d, 'f, 'm) lib \<Rightarrow> 'd Model \<Rightarrow> int \<Rightarrow> 'm" where
  "local_matrix L model n =
     (if length (matrix (nodes model ! nat n)) = 16
      then mat4_16 L (matrix (nodes model ! nat n)) else mat4_diag1 L)"

text \<open>
  The accumulated transform at the end of a path of nodes, entered with the transform
  \<open>T\<close>: each node on the path multiplies its local transform by what its parent had.
\<close>

definition accumulated :: "('d, 'f, 'm) lib \<Rightarrow> 'd Model \<Rightarrow> 'm \<Rightarrow> int list \<Rightarrow> 'm" where
  "accumulated L model T path =
     foldl (\<lambda>parent n. mat4_mul L (local_matrix L model n) parent) T path"

text \<open>
  The nodes a depth-first traversal from node \<open>n\<close> visits, in visiting order, each given
  by the path that leads to it from \<open>n\<close>, down to the given depth.
\<close>

fun dfs_paths :: "nat \<Rightarrow> 'd Model \<Rightarrow> int \<Rightarrow> int list list" where
  "dfs_paths 0 model n = []"
| "dfs_paths (Suc depth) model n =
     [n] # map ((#) n) (concat (map (dfs_paths depth model) (children (nodes model ! nat n))))"

definition primitive_count :: "'d Model \<Rightarrow> int \<Rightarrow> nat" where
  "primitive_count model n =
     (if mesh (nodes model ! nat n) \<ge> 0
      then length (primitives (meshes model ! nat (mesh (nodes model ! nat n)))) else 0)"

text \<open>The transforms of the draw commands a traversal from \<open>n\<close> appends, in order.\<close>

definition visit_transforms ::
  "('d, 'f, 'm) lib \<Rightarrow> nat \<Rightarrow> 'd Model \<Rightarrow> 'm \<Rightarrow> int \<Rightarrow> 'm list" where
  "visit_transforms L depth model T n =
     concat (map (\<lambda>path. replicate (primitive_count model (last path)) (accumulated L model T path))
               (dfs_paths depth model n))"

text \<open>The node-children relation, on the nodes the model has.\<close>

definition child_rel :: "'d Model \<Rightarrow> (int \<times> int) set" where
  "child_rel model =
     {(p, c). 0 \<le> p \<and> p < int (length (nodes model)) \<and> c \<in> set (children (nodes model ! nat p))}"

text \<open>The same relation, on the nodes that can be reached from \<open>n\<close>.\<close>

definition child_rel_from :: "'d Model \<Rightarrow> int \<Rightarrow> (int \<times> int) set" where
  "child_rel_from model n = {(p, c). (n, p) \<in> (child_rel model)\<^sup>* \<and> (p, c) \<in> child_rel model}"

section \<open>An instance to run the model on\<close>

text \<open>
  \<^verbatim>\<open>Accessor::ByteStride\<close> with its two helpers, as tiny\_gltf.h (a header of the tinygltf
  library, not under src/) defines them; used to run the model on examples only.
\<close>

definition GetComponentSizeInBytes :: "int \<Rightarrow> int" where
  "GetComponentSizeInBytes ct =
     (if ct = 5120 \<or> ct = 5121 then 1
      else if ct = 5122 \<or> ct = 5123 then 2
      else if ct = 5124 \<or> ct = 5125 \<or> ct = 5126 then 4
      else if ct = 5130 then 8
      else -1)"

definition GetNumComponentsInType :: "int \<Rightarrow> int" where
  "GetNumComponentsInType ty =
     (if ty = 65 then 1 else if ty = 2 then 2 else if ty = 3 then 3 else if ty = 4 then 4
      else if ty = 34 then 4 else if ty = 35 then 9 else if ty = 36 then 16 else -1)"

definition tinygltf_ByteStride :: "Accessor \<Rightarrow> BufferView \<Rightarrow> int" where
  "tinygltf_ByteStride acc bv =
     (let componentSizeInBytes = GetComponentSizeInBytes (componentType acc) in
      if byteStride bv = 0 then
        (if componentSizeInBytes \<le> 0 then -1
         else let numComponents = GetNumComponentsInType (acc_type acc) in
           if numComponents \<le> 0 then -1 else componentSizeInBytes * numComponents)
      else
        (if componentSizeInBytes \<le> 0 then -1
         else if unat (byteStride bv) mod nat componentSizeInBytes \<noteq> 0 then -1
         else sint (ucast (byteStride bv) :: 32 word)))"

text \<open>Little-endian memory: the first byte is the least significant.\<close>

definition le_word :: "u8 list \<Rightarrow> 'a::len word" where
  "le_word bs = foldr (\<lambda>b w. ucast b + 256 * w) bs 0"

text \<open>The product of two 4x4 matrices stored by columns, on integers.\<close>

definition int_mat4_mul :: "int list \<Rightarrow> int list \<Rightarrow> int list" where
  "int_mat4_mul a b =
     map (\<lambda>j. a ! (j mod 4) * b ! (4 * (j div 4))
              + a ! (4 + j mod 4) * b ! (4 * (j div 4) + 1)
              + a ! (8 + j mod 4) * b ! (4 * (j div 4) + 2)
              + a ! (12 + j mod 4) * b ! (4 * (j div 4) + 3)) [0 ..< 16]"

text \<open>
  Floats as their 32 bits read little-endian, doubles and matrix entries as integers
  (exact for the small values of the examples).
\<close>

definition host :: "(int, u32, int list) lib" where
  "host = \<lparr>ByteStride = tinygltf_ByteStride,
           mat4_16 = (\<lambda>ds. ds),
           mat4_diag1 = [1,0,0,0, 0,1,0,0, 0,0,1,0, 0,0,0,1],
           mat4_mul = int_mat4_mul,
           float_at = le_word,
           uint16_at = le_word,
           float_0_7 = 0x3F333333\<rparr>"

definition host_camera :: "(int, int list) camera" where
  "host_camera = \<lparr>lookAt_at = (\<lambda>t. [1,0,0,0, 0,1,0,0, 0,0,1,0, t,0,0,1]),
                  perspective_for = (\<lambda>w h. [h,0,0,0, 0,-w,0,0, 0,0,1,0, 0,0,0,1])\<rparr>"

text \<open>
  A scene of three nodes: a root that translates, with two children; the first child
  scales and has the mesh, the second has a matrix of the wrong size and the same mesh.
  The mesh has one primitive of one vertex (1.0, 2.0, 3.0) and the two indices 0, 1.
\<close>

definition sample_primitive :: Primitive where
  "sample_primitive = \<lparr>attributes = [''POSITION'' \<mapsto> 0], indices = 1\<rparr>"

definition sample_model :: "int Model" where
  "sample_model =
     \<lparr>nodes = [\<lparr>matrix = [1,0,0,0, 0,1,0,0, 0,0,1,0, 1,0,0,1], mesh = -1, children = [1, 2]\<rparr>,
               \<lparr>matrix = [2,0,0,0, 0,2,0,0, 0,0,2,0, 0,0,0,1], mesh = 0, children = []\<rparr>,
               \<lparr>matrix = [7, 7, 7], mesh = 0, children = []\<rparr>],
      meshes = [\<lparr>primitives = [sample_primitive]\<rparr>],
      accessors = [\<lparr>bufferView = 0, acc_byteOffset = 0, componentType = 5126,
                    acc_count = 1, acc_type = 3\<rparr>,
                   \<lparr>bufferView = 1, acc_byteOffset = 0, componentType = 5123,
                    acc_count = 2, acc_type = 65\<rparr>],
      bufferViews = [\<lparr>buffer = 0, bv_byteOffset = 0, byteStride = 0\<rparr>,
                     \<lparr>buffer = 0, bv_byteOffset = 12, byteStride = 0\<rparr>],
      buffers = [\<lparr>data = [0,0,128,63, 0,0,0,64, 0,0,64,64, 0,0, 1,0]\<rparr>],
      scenes = [\<lparr>scene_nodes = [0]\<rparr>],
      defaultScene = 0\<rparr>"

definition sample_loaded :: "int loaded" where
  "sample_loaded = \<lparr>ret = True, err = [], warn = ''unused extension'', ld_model = sample_model\<rparr>"

definition failed_loaded :: "int loaded" where
  "failed_loaded = \<lparr>ret = False, err = ''bad JSON'', warn = [], ld_model = sample_model\<rparr>"

definition no_globals :: "(u32, int list) globals" where
  "no_globals = \<lparr>vertices = [], indicies = [], drawObjects = [], viewMtx = [], projMtx = []\<rparr>"

text \<open>What flattening the sample yields.\<close>

definition sample_globals :: "(u32, int list) globals" where
  "sample_globals =
     \<lparr>vertices = [\<lparr>pos = (0x3F800000, 0x40000000, 0x40400000),
                    color = (0x3F333333, 0x3F333333, 0x3F333333)\<rparr>,
                  \<lparr>pos = (0x3F800000, 0x40000000, 0x40400000),
                    color = (0x3F333333, 0x3F333333, 0x3F333333)\<rparr>],
      indicies = [0, 1, 0, 1],
      drawObjects = [\<lparr>indexCount = 2, firstIndex = 0, vertexOffset = 0,
                      transform = [2,0,0,0, 0,2,0,0, 0,0,2,0, 2,0,0,1]\<rparr>,
                     \<lparr>indexCount = 2, firstIndex = 2, vertexOffset = 1,
                      transform = [1,0,0,0, 0,1,0,0, 0,0,1,0, 1,0,0,1]\<rparr>],
      viewMtx = [], projMtx = []\<rparr>"

text \<open>
  The accumulated transform of the first child, and what its primitive alone appends to
  empty buffers.
\<close>

definition sample_transform :: "int list" where
  "sample_transform = [2,0,0,0, 0,2,0,0, 0,0,2,0, 2,0,0,1]"

definition one_primitive_globals :: "(u32, int list) globals" where
  "one_primitive_globals =
     \<lparr>vertices = [\<lparr>pos = (0x3F800000, 0x40000000, 0x40400000),
                    color = (0x3F333333, 0x3F333333, 0x3F333333)\<rparr>],
      indicies = [0, 1],
      drawObjects = [\<lparr>indexCount = 2, firstIndex = 0, vertexOffset = 0,
                      transform = sample_transform\<rparr>],
      viewMtx = [], projMtx = []\<rparr>"

text \<open>Two frames for a swapchain of two images, and the state after them.\<close>

definition sample_frames :: "int frame list" where
  "sample_frames = [\<lparr>width = 800, height = 600, time = 0, imageIndex = 0\<rparr>,
                    \<lparr>width = 800, height = 600, time = 5, imageIndex = 1\<rparr>]"

definition sample_rendered :: "(u32, int list) app" where
  "sample_rendered =
     \<lparr>glob = sample_globals\<lparr>viewMtx := [1,0,0,0, 0,1,0,0, 0,0,1,0, 5,0,0,1],
                              projMtx := [600,0,0,0, 0,-800,0,0, 0,0,1,0, 0,0,0,1]\<rparr>,
      vertexBufferGPU = vertices sample_globals,
      indexBufferGPU = indicies sample_globals,
      uniformBufferGPU =
        [Some \<lparr>modelMtx = [2,0,0,0, 0,2,0,0, 0,0,2,0, 2,0,0,1],
               viewProjMtx = [600,0,0,0, 0,-800,0,0, 0,0,1,0, 0,0,0,1]\<rparr>,
         Some \<lparr>modelMtx = [1,0,0,0, 0,1,0,0, 0,0,1,0, 1,0,0,1],
               viewProjMtx = [600,0,0,0, 0,-800,0,0, 0,0,1,0, 0,0,0,1]\<rparr>,
         Some \<lparr>modelMtx = [2,0,0,0, 0,2,0,0, 0,0,2,0, 2,0,0,1],
               viewProjMtx = [600,0,0,0, 0,-800,0,0, 0,0,1,0, 3000,0,0,1]\<rparr>,
         Some \<lparr>modelMtx = [1,0,0,0, 0,1,0,0, 0,0,1,0, 1,0,0,1],
               viewProjMtx = [600,0,0,0, 0,-800,0,0, 0,0,1,0, 3000,0,0,1]\<rparr>],
      framebuffers = 2,
      recorded =
        [Begin,
         WithRenderPass 1 800 600
           [BindPipeline, BindVertexBuffer, BindIndexBuffer,
            BindGraphicsUniformBuffer 256 128, DrawIndexed 2 0 0,
            BindGraphicsUniformBuffer 384 128, DrawIndexed 2 2 1],
         End]\<rparr>"

text \<open>The state after the first of the two frames alone.\<close>

definition sample_first_frame :: "(u32, int list) app" where
  "sample_first_frame =
     \<lparr>glob = sample_globals\<lparr>viewMtx := [1,0,0,0, 0,1,0,0, 0,0,1,0, 0,0,0,1],
                              projMtx := [600,0,0,0, 0,-800,0,0, 0,0,1,0, 0,0,0,1]\<rparr>,
      vertexBufferGPU = vertices sample_globals,
      indexBufferGPU = indicies sample_globals,
      uniformBufferGPU =
        [Some \<lparr>modelMtx = [2,0,0,0, 0,2,0,0, 0,0,2,0, 2,0,0,1],
               viewProjMtx = [600,0,0,0, 0,-800,0,0, 0,0,1,0, 0,0,0,1]\<rparr>,
         Some \<lparr>modelMtx = [1,0,0,0, 0,1,0,0, 0,0,1,0, 1,0,0,1],
               viewProjMtx = [600,0,0,0, 0,-800,0,0, 0,0,1,0, 0,0,0,1]\<rparr>,
         None, None],
      framebuffers = 2,
      recorded =
        [Begin,
         WithRenderPass 0 800 600
           [BindPipeline, BindVertexBuffer, BindIndexBuffer,
            BindGraphicsUniformBuffer 0 128, DrawIndexed 2 0 0,
            BindGraphicsUniformBuffer 128 128, DrawIndexed 2 2 1],
         End]\<rparr>"

text \<open>
  A model whose only primitive has \<open>2^32\<close> indices of two bytes each, in a buffer of
  12 + \<open>2^33\<close> zero bytes.
\<close>

definition huge_model :: "int Model" where
  "huge_model =
     \<lparr>nodes = [\<lparr>matrix = [], mesh = 0, children = []\<rparr>],
      meshes = [\<lparr>primitives = [sample_primitive]\<rparr>],
      accessors = [\<lparr>bufferView = 0, acc_byteOffset = 0, componentType = 5126,
                    acc_count = 1, acc_type = 3\<rparr>,
                   \<lparr>bufferView = 1, acc_byteOffset = 0, componentType = 5123,
                    acc_count = 4294967296, acc_type = 65\<rparr>],
      bufferViews = [\<lparr>buffer = 0, bv_byteOffset = 0, byteStride = 0\<rparr>,
                     \<lparr>buffer = 0, bv_byteOffset = 12, byteStride = 0\<rparr>],
      buffers = [\<lparr>data = replicate (12 + 8589934592) 0\<rparr>],
      scenes = [\<lparr>scene_nodes = [0]\<rparr>],
      defaultScene = 0\<rparr>"

definition huge_loaded :: "int loaded" where
  "huge_loaded = \<lparr>ret = True, err = [], warn = [], ld_model = huge_model\<rparr>"

definition huge_globals :: "(u32, int list) globals" where
  "huge_globals =
     \<lparr>vertices = [\<lparr>pos = (0, 0, 0), color = (0x3F333333, 0x3F333333, 0x3F333333)\<rparr>],
      indicies = replicate 4294967296 0,
      drawObjects = [\<lparr>indexCount = 0, firstIndex = 0, vertexOffset = 0,
                      transform = [1,0,0,0, 0,1,0,0, 0,0,1,0, 0,0,0,1]\<rparr>],
      viewMtx = [], projMtx = []\<rparr>"

section \<open>Sequencing and loops\<close>

lemma and_then_Inr [simp]: "and_then (Inr x) f = f x"
  and and_then_Inl [simp]: "and_then (Inl e) f = Inl e"
  by (simp_all add: and_then_def)

lemma and_then_eq_Inr: "and_then m f = Inr y \<longleftrightarrow> (\<exists>x. m = Inr x \<and> f x = Inr y)"
  by (cases m) simp_all

lemma and_then_eq_Inl:
  "and_then m f = Inl e \<longleftrightarrow> m = Inl e \<or> (\<exists>x. m = Inr x \<and> f x = Inl e)"
  by (cases m) auto

lemma at_eq_Inr: "at xs i = Inr x \<longleftrightarrow> 0 \<le> i \<and> i < int (length xs) \<and> x = xs ! nat i"
  by (auto simp: at_def)

lemma at_eq_Inl: "at xs i = Inl e \<Longrightarrow> e = OutOfBounds"
  by (auto simp: at_def split: if_splits)

lemma for_each_invariant:
  assumes "for_each xs body s = Inr s'" and "P s"
    and "\<And>x t t'. x \<in> set xs \<Longrightarrow> P t \<Longrightarrow> body x t = Inr t' \<Longrightarrow> P t'"
  shows "P s'"
  using assms
proof (induction xs arbitrary: s)
  case Nil
  then show ?case by simp
next
  case (Cons x xs)
  from Cons.prems(1) obtain t where t: "body x s = Inr t" "for_each xs body t = Inr s'"
    by (auto simp: and_then_eq_Inr)
  have "P t" using Cons.prems(2) t(1) by (rule Cons.prems(3) [of x, simplified])
  with t(2) show ?case
  proof (rule Cons.IH)
    fix y u u' assume "y \<in> set xs" "P u" "body y u = Inr u'"
    then show "P u'" using Cons.prems(3) [of y u u'] by simp
  qed
qed

lemma for_each_error:
  assumes "for_each xs body s = Inl e"
  shows "\<exists>x \<in> set xs. \<exists>t. body x t = Inl e"
  using assms
  by (induction xs arbitrary: s) (auto simp: and_then_eq_Inl)

section \<open>The local transform\<close>

lemma list16:
  assumes "length xs = 16"
  shows "[xs ! 0, xs ! 1, xs ! 2, xs ! 3, xs ! 4, xs ! 5, xs ! 6, xs ! 7, xs ! 8, xs ! 9,
          xs ! 10, xs ! 11, xs ! 12, xs ! 13, xs ! 14, xs ! 15] = xs"
  using assms by (intro nth_equalityI) (auto simp: nth_Cons' less_Suc_eq numeral_eq_Suc)

lemma node_local_transform_eq:
  "node_local_transform L node =
     Inr (if length (matrix node) = 16 then mat4_16 L (matrix node) else mat4_diag1 L)"
proof (cases "length (matrix node) = 16")
  case True
  then show ?thesis
    using list16 [of "matrix node"] by (simp add: node_local_transform_def at_def)
next
  case False
  then show ?thesis by (simp add: node_local_transform_def)
qed

lemma load_gltf_node_Suc:
  assumes "0 \<le> n" and "n < int (length (nodes model))"
  shows "load_gltf_node L (Suc fuel) model n T g =
     and_then (load_mesh L model (nodes model ! nat n) (mat4_mul L (local_matrix L model n) T) g)
       (for_each (children (nodes model ! nat n))
          (\<lambda>c s. load_gltf_node L fuel model c (mat4_mul L (local_matrix L model n) T) s))"
  using assms by (simp add: at_def node_local_transform_eq local_matrix_def Let_def)

lemma load_gltf_node_out_of_range:
  assumes "\<not> (0 \<le> n \<and> n < int (length (nodes model)))"
  shows "load_gltf_node L (Suc fuel) model n T g = Inl OutOfBounds"
  using assms by (auto simp: at_def)

declare load_gltf_node.simps [simp del]

section \<open>One primitive\<close>

lemma push_vertices_loop:
  assumes "for_each is (push_vertex L B V A st) g = Inr g'"
  shows "g' = g\<lparr>vertices := vertices g @
           map (\<lambda>index.
             \<lparr>pos = (float_at L (bytes_at (data B) (unat (bv_byteOffset V) + unat (acc_byteOffset A) + unat (st * of_nat index)) 4),
                     float_at L (bytes_at (data B) (unat (bv_byteOffset V) + unat (acc_byteOffset A) + unat (st * of_nat index) + 4) 4),
                     float_at L (bytes_at (data B) (unat (bv_byteOffset V) + unat (acc_byteOffset A) + unat (st * of_nat index) + 8) 4)),
              color = (float_0_7 L, float_0_7 L, float_0_7 L)\<rparr>) is\<rparr>"
  using assms
proof (induction "is" arbitrary: g)
  case Nil
  then show ?case by simp
next
  case (Cons i "is")
  from Cons.prems obtain t where t: "push_vertex L B V A st i g = Inr t"
      "for_each is (push_vertex L B V A st) t = Inr g'"
    by (auto simp: and_then_eq_Inr)
  show ?case
    using t(1) Cons.IH [OF t(2)]
    by (auto simp: push_vertex_def Let_def split: if_splits)
qed

lemma push_indices_loop:
  assumes "for_each is (push_index L B V A st) g = Inr g'"
  shows "g' = g\<lparr>indicies := indicies g @
           map (\<lambda>index. ucast (uint16_at L (bytes_at (data B)
                  (unat (bv_byteOffset V) + unat (acc_byteOffset A) + unat (st * of_nat index)) 2))) is\<rparr>"
  using assms
proof (induction "is" arbitrary: g)
  case Nil
  then show ?case by simp
next
  case (Cons i "is")
  from Cons.prems obtain t where t: "push_index L B V A st i g = Inr t"
      "for_each is (push_index L B V A st) t = Inr g'"
    by (auto simp: and_then_eq_Inr)
  show ?case
    using t(1) Cons.IH [OF t(2)]
    by (auto simp: push_index_def Let_def split: if_splits)
qed

lemma load_primitive_result:
  assumes "load_primitive L model T p g = Inr g'"
  shows "g' = g\<lparr>vertices := vertices g @
                  map (vertex_read L model (position_accessor model p))
                    [0 ..< unat (acc_count (position_accessor model p))],
                indicies := indicies g @
                  map (index_read L model (index_accessor model p))
                    [0 ..< unat (acc_count (index_accessor model p))],
                drawObjects := drawObjects g @
                  [\<lparr>indexCount = ucast (acc_count (index_accessor model p)),
                    firstIndex = of_nat (length (indicies g)),
                    vertexOffset = of_nat (length (vertices g)),
                    transform = T\<rparr>]\<rparr>"
proof -
  let ?pa = "position_accessor model p" and ?ia = "index_accessor model p"
  from assms obtain pa pv pb ia iv ib g1 g2 where
    pa: "pa = accessors model ! nat (case attributes p ''POSITION'' of None \<Rightarrow> 0 | Some a \<Rightarrow> a)"
    and pv: "pv = bufferViews model ! nat (bufferView pa)"
    and pb: "pb = buffers model ! nat (buffer pv)"
    and ia: "ia = accessors model ! nat (indices p)"
    and iv: "iv = bufferViews model ! nat (bufferView ia)"
    and ib: "ib = buffers model ! nat (buffer iv)"
    and g1: "for_each [0 ..< unat (acc_count pa)]
               (push_vertex L pb pv pa (of_int (ByteStride L pa pv))) g = Inr g1"
    and g2: "for_each [0 ..< unat (acc_count ia)]
               (push_index L ib iv ia (of_int (ByteStride L ia iv))) g1 = Inr g2"
    and g': "g2\<lparr>drawObjects := drawObjects g2 @
                [\<lparr>indexCount = ucast (acc_count ia), firstIndex = of_nat (length (indicies g)),
                  vertexOffset = of_nat (length (vertices g)), transform = T\<rparr>]\<rparr> = g'"
    unfolding load_primitive_def Let_def and_then_eq_Inr at_eq_Inr sum.inject
    by (elim exE conjE) (rule that, assumption+)
  have pa': "pa = ?pa" using pa by (simp add: position_accessor_def)
  have pv': "pv = view_of model ?pa" using pv pa' by (simp add: view_of_def)
  have pb': "pb = buffer_of model ?pa" using pb pv' by (simp add: buffer_of_def)
  have ia': "ia = ?ia" using ia by (simp add: index_accessor_def)
  have iv': "iv = view_of model ?ia" using iv ia' by (simp add: view_of_def)
  have ib': "ib = buffer_of model ?ia" using ib iv' by (simp add: buffer_of_def)
  have v: "g1 = g\<lparr>vertices := vertices g @ map (vertex_read L model ?pa) [0 ..< unat (acc_count ?pa)]\<rparr>"
    using push_vertices_loop [OF g1] unfolding pa' pv' pb'
    by (simp add: vertex_read_def element_offset_def)
  have i: "g2 = g1\<lparr>indicies := indicies g1 @ map (index_read L model ?ia) [0 ..< unat (acc_count ?ia)]\<rparr>"
    using push_indices_loop [OF g2] unfolding ia' iv' ib'
    by (simp add: index_read_def element_offset_def)
  show ?thesis unfolding g' [symmetric] i v ia' by simp
qed

lemma load_primitive_vertices:
  assumes "load_primitive L model T p g = Inr g'"
  shows "vertices g' = vertices g @ map (vertex_read L model (position_accessor model p))
                    [0 ..< unat (acc_count (position_accessor model p))]"
  by (subst load_primitive_result [OF assms]) simp

lemma load_primitive_indicies:
  assumes "load_primitive L model T p g = Inr g'"
  shows "indicies g' = indicies g @ map (index_read L model (index_accessor model p))
                    [0 ..< unat (acc_count (index_accessor model p))]"
  by (subst load_primitive_result [OF assms]) simp

lemma load_primitive_drawObjects:
  assumes "load_primitive L model T p g = Inr g'"
  shows "drawObjects g' = drawObjects g @
                  [\<lparr>indexCount = ucast (acc_count (index_accessor model p)),
                    firstIndex = of_nat (length (indicies g)),
                    vertexOffset = of_nat (length (vertices g)),
                    transform = T\<rparr>]"
  by (subst load_primitive_result [OF assms]) simp

section \<open>The traversal\<close>

lemma load_mesh_invariant:
  assumes "load_mesh L model node T g = Inr g'" and "P g"
    and step: "\<And>T p t t'. P t \<Longrightarrow> load_primitive L model T p t = Inr t' \<Longrightarrow> P t'"
  shows "P g'"
proof (cases "mesh node \<ge> 0")
  case True
  with assms(1) obtain m :: Mesh where
    "for_each (primitives m) (load_primitive L model T) g = Inr g'"
    by (auto simp: load_mesh_def and_then_eq_Inr)
  then show ?thesis using \<open>P g\<close>
    by (rule for_each_invariant) (rule step)
next
  case False
  with assms(1,2) show ?thesis by (simp add: load_mesh_def)
qed

lemma load_gltf_node_invariant:
  assumes "load_gltf_node L fuel model n T g = Inr g'" and "P g"
    and step: "\<And>T p t t'. P t \<Longrightarrow> load_primitive L model T p t = Inr t' \<Longrightarrow> P t'"
  shows "P g'"
  using assms(1,2)
proof (induction fuel arbitrary: n T g g')
  case 0
  then show ?case by (simp add: load_gltf_node.simps)
next
  case (Suc fuel)
  show ?case
  proof (cases "0 \<le> n \<and> n < int (length (nodes model))")
    case True
    let ?T = "mat4_mul L (local_matrix L model n) T"
    from Suc.prems(1) True obtain g1 where
      g1: "load_mesh L model (nodes model ! nat n) ?T g = Inr g1"
      and g': "for_each (children (nodes model ! nat n))
                 (\<lambda>c s. load_gltf_node L fuel model c ?T s) g1 = Inr g'"
      by (auto simp: load_gltf_node_Suc and_then_eq_Inr)
    have "P g1" using g1 \<open>P g\<close> by (rule load_mesh_invariant) (rule step)
    with g' show ?thesis
      by (rule for_each_invariant) (rule Suc.IH)
  next
    case False
    with Suc.prems(1) show ?thesis by (simp add: load_gltf_node_out_of_range)
  qed
qed

lemma load_gltf_model_invariant:
  assumes "load_gltf_model L fuel ld g = Inr g'" and "P g"
    and step: "\<And>T p t t'. P t \<Longrightarrow> load_primitive L (ld_model ld) T p t = Inr t' \<Longrightarrow> P t'"
  shows "P g'"
proof -
  from assms(1) obtain scene :: Scene where
    "for_each (scene_nodes scene)
       (\<lambda>r s. load_gltf_node L fuel (ld_model ld) r (mat4_diag1 L) s) g = Inr g'"
    by (auto simp: load_gltf_model_def Let_def and_then_eq_Inr split: if_splits)
  then show ?thesis using \<open>P g\<close>
  proof (rule for_each_invariant)
    fix x t t' assume "P t" "load_gltf_node L fuel (ld_model ld) x (mat4_diag1 L) t = Inr t'"
    from this(2,1) show "P t'" by (rule load_gltf_node_invariant) (rule step)
  qed
qed

section \<open>Growth of the buffers\<close>

lemma unat_of_nat_le: "unat (of_nat n :: 'a::len word) \<le> n"
  by (simp add: unat_of_nat)

lemma unat_ucast_mod:
  "unat (ucast (w :: 'b::len word) :: 'a::len word) = unat w mod 2 ^ LENGTH('a)"
  by (simp add: unsigned_ucast_eq take_bit_eq_mod)

lemma unat_ucast_le: "unat (ucast (w :: 'b::len word) :: 'a::len word) \<le> unat w"
  by (simp add: unat_ucast_mod)

lemma load_primitive_lengths:
  assumes "load_primitive L model T p g = Inr g'"
  shows "length (vertices g') = length (vertices g) + unat (acc_count (position_accessor model p))"
    and "length (indicies g') = length (indicies g) + unat (acc_count (index_accessor model p))"
    and "length (drawObjects g') = Suc (length (drawObjects g))"
  by (simp_all add: load_primitive_vertices [OF assms] load_primitive_indicies [OF assms]
      load_primitive_drawObjects [OF assms])

lemma load_primitive_prefix:
  assumes "load_primitive L model T p g = Inr g'"
  shows "prefix (vertices g) (vertices g')" and "prefix (indicies g) (indicies g')"
    and "prefix (drawObjects g) (drawObjects g')"
  by (simp_all add: load_primitive_vertices [OF assms] load_primitive_indicies [OF assms]
      load_primitive_drawObjects [OF assms])

lemma in_bounds_mono:
  assumes "prefix (vertices a) (vertices b)" and "prefix (indicies a) (indicies b)"
    and "in_bounds a d"
  shows "in_bounds b d"
  using assms prefix_length_le [OF assms(1)] prefix_length_le [OF assms(2)]
  by (simp add: in_bounds_def)

lemma load_primitive_in_bounds:
  assumes run: "load_primitive L model T p g = Inr g'"
  shows "in_bounds g' (last (drawObjects g'))"
  using unat_of_nat_le [of "length (indicies g)", where 'a = 32]
    unat_of_nat_le [of "length (vertices g)", where 'a = 32]
    unat_ucast_le [of "acc_count (index_accessor model p)", where 'a = 32]
  by (simp add: in_bounds_def load_primitive_lengths [OF run] load_primitive_drawObjects [OF run])

lemma grows_refl: "grows g g"
  by (simp add: grows_def)

lemma grows_step:
  assumes g: "grows g t" and run: "load_primitive L model T p t = Inr t'"
  shows "grows g t'"
proof -
  note step = load_primitive_prefix [OF run]
  from g have pre: "prefix (vertices g) (vertices t')" "prefix (indicies g) (indicies t')"
    "prefix (drawObjects g) (drawObjects t')"
    using step unfolding grows_def by (meson prefix_order.trans)+
  from g have le: "length (drawObjects g) \<le> length (drawObjects t)"
    by (simp add: grows_def prefix_length_le)
  obtain d where d: "drawObjects t' = drawObjects t @ [d]"
    using load_primitive_drawObjects [OF run] by blast
  have "in_bounds t' d" using load_primitive_in_bounds [OF run] d by simp
  moreover have "list_all (in_bounds t') (drop (length (drawObjects g)) (drawObjects t))"
    using g in_bounds_mono [OF step(1,2)] by (auto simp: grows_def list_all_iff)
  ultimately have "list_all (in_bounds t') (drop (length (drawObjects g)) (drawObjects t'))"
    using le by (simp add: d)
  with pre show ?thesis by (simp add: grows_def)
qed

text \<open>
  C6. Flattening only appends: one primitive makes the vertex buffer longer by exactly
  the count of its position accessor and the index buffer by exactly the count of its
  index accessor; across one primitive, a traversal and the whole load the three lists
  are extended at the end only and every draw command appended lies within both buffers
  (\<open>firstIndex + indexCount\<close> at most the length of the index buffer, \<open>vertexOffset\<close> at
  most the length of the vertex buffer); and a draw command within the buffers stays
  within them however they grow afterwards.
\<close>

theorem buffers_only_grow:
  "(load_primitive L model T p g = Inr g1 \<longrightarrow>
      length (vertices g1) = length (vertices g) + unat (acc_count (position_accessor model p))
      \<and> length (indicies g1) = length (indicies g) + unat (acc_count (index_accessor model p))
      \<and> grows g g1)
   \<and> (load_gltf_node L fuel model n T' h = Inr h1 \<longrightarrow> grows h h1)
   \<and> (load_gltf_model L fuel' ld k = Inr k1 \<longrightarrow> grows k k1)
   \<and> (grows a b \<longrightarrow> in_bounds a d \<longrightarrow> in_bounds b d)"
proof (intro conjI impI)
  assume run: "load_primitive L model T p g = Inr g1"
  show "length (vertices g1) = length (vertices g) + unat (acc_count (position_accessor model p))"
    and "length (indicies g1) = length (indicies g) + unat (acc_count (index_accessor model p))"
    by (rule load_primitive_lengths [OF run])+
  show "grows g g1" using grows_refl run by (rule grows_step)
next
  assume "load_gltf_node L fuel model n T' h = Inr h1"
  then show "grows h h1" using grows_refl
    by (rule load_gltf_node_invariant) (rule grows_step)
next
  assume run: "load_gltf_model L fuel' ld k = Inr k1"
  then show "grows k k1" using grows_refl
    by (rule load_gltf_model_invariant) (rule grows_step)
next
  assume "grows a b" and "in_bounds a d"
  then show "in_bounds b d" by (auto simp: grows_def intro: in_bounds_mono)
qed

lemma sample_primitive_run:
  "load_primitive host sample_model sample_transform sample_primitive no_globals = Inr one_primitive_globals"
  by code_simp

lemma sample_node_run:
  "load_gltf_node host (Suc 1) sample_model 0 (mat4_diag1 host) no_globals = Inr sample_globals"
  by code_simp

lemma sample_model_run:
  "load_gltf_model host (Suc 1) sample_loaded no_globals = Inr sample_globals"
  by code_simp

theorem buffers_only_grow_witness:
  "load_primitive host sample_model sample_transform sample_primitive no_globals = Inr one_primitive_globals
   \<and> length (vertices one_primitive_globals) = length (vertices no_globals) + 1
   \<and> length (indicies one_primitive_globals) = length (indicies no_globals) + 2
   \<and> grows no_globals one_primitive_globals
   \<and> load_gltf_node host (Suc 1) sample_model 0 (mat4_diag1 host) no_globals = Inr sample_globals
   \<and> load_gltf_model host (Suc 1) sample_loaded no_globals = Inr sample_globals
   \<and> grows no_globals sample_globals
   \<and> in_bounds one_primitive_globals (hd (drawObjects one_primitive_globals))
   \<and> in_bounds sample_globals (hd (drawObjects one_primitive_globals))"
proof -
  have first: "in_bounds one_primitive_globals (hd (drawObjects one_primitive_globals))"
    by (simp add: in_bounds_def one_primitive_globals_def)
  note facts = buffers_only_grow [where L = host and model = sample_model and T = sample_transform
      and p = sample_primitive and g = no_globals and ?g1.0 = one_primitive_globals
      and fuel = "Suc 1" and n = 0 and T' = "mat4_diag1 host" and h = no_globals
      and ?h1.0 = sample_globals and fuel' = "Suc 1" and ld = sample_loaded
      and k = no_globals and ?k1.0 = sample_globals and a = one_primitive_globals
      and b = sample_globals and d = "hd (drawObjects one_primitive_globals)"]
  have later: "grows one_primitive_globals sample_globals"
    by (simp add: grows_def in_bounds_def one_primitive_globals_def sample_globals_def
        sample_transform_def)
  from facts later first have "in_bounds sample_globals (hd (drawObjects one_primitive_globals))"
    by blast
  with facts first show ?thesis
    using sample_primitive_run sample_node_run sample_model_run
    by (simp add: no_globals_def one_primitive_globals_def)
qed

text \<open>
  C7. The vertices one primitive appends are, in order, one per element of its
  POSITION accessor: \<open>pos\<close> is the three consecutive floats at the element's offset
  (buffer view offset + accessor byteOffset + stride * index) and \<open>color\<close> is
  (0.7, 0.7, 0.7). Over a whole load every vertex keeps that colour.
\<close>

theorem vertices_from_position_accessor:
  "(load_primitive L model T p g = Inr g1 \<longrightarrow>
      vertices g1 = vertices g @
        map (vertex_read L model (position_accessor model p))
          [0 ..< unat (acc_count (position_accessor model p))])
   \<and> (load_gltf_model L fuel ld h = Inr h1 \<longrightarrow>
        list_all (\<lambda>v. color v = (float_0_7 L, float_0_7 L, float_0_7 L)) (vertices h) \<longrightarrow>
        list_all (\<lambda>v. color v = (float_0_7 L, float_0_7 L, float_0_7 L)) (vertices h1))"
proof (intro conjI impI)
  assume "load_primitive L model T p g = Inr g1"
  then show "vertices g1 = vertices g @
        map (vertex_read L model (position_accessor model p))
          [0 ..< unat (acc_count (position_accessor model p))]"
    by (rule load_primitive_vertices)
next
  let ?P = "\<lambda>t. list_all (\<lambda>v. color v = (float_0_7 L, float_0_7 L, float_0_7 L)) (vertices t)"
  assume "load_gltf_model L fuel ld h = Inr h1" and "?P h"
  then show "?P h1"
  proof (rule load_gltf_model_invariant)
    fix T p t t'
    assume "?P t" and "load_primitive L (ld_model ld) T p t = Inr t'"
    then show "?P t'"
      by (auto simp: load_primitive_vertices list_all_iff vertex_read_def)
  qed
qed

theorem vertices_from_position_accessor_witness:
  "load_primitive host sample_model sample_transform sample_primitive no_globals = Inr one_primitive_globals
   \<and> vertices one_primitive_globals = vertices no_globals @
        map (vertex_read host sample_model (position_accessor sample_model sample_primitive))
          [0 ..< unat (acc_count (position_accessor sample_model sample_primitive))]
   \<and> load_gltf_model host (Suc 1) sample_loaded no_globals = Inr sample_globals
   \<and> list_all (\<lambda>v. color v = (float_0_7 host, float_0_7 host, float_0_7 host)) (vertices no_globals)
   \<and> list_all (\<lambda>v. color v = (float_0_7 host, float_0_7 host, float_0_7 host)) (vertices sample_globals)"
  using vertices_from_position_accessor [where L = host and model = sample_model and T = sample_transform
      and p = sample_primitive and g = no_globals and ?g1.0 = one_primitive_globals
      and fuel = "Suc 1" and ld = sample_loaded and h = no_globals and ?h1.0 = sample_globals]
    sample_primitive_run sample_model_run
  by (simp add: no_globals_def)

lemma index_read_bound: "unat (index_read L model acc index) < 65536"
proof -
  have "unat (ucast (w :: u16) :: u32) < 65536" for w
    using unat_ucast_le [of w, where 'a = 32] unsigned_less [of w, where 'a = nat]
    by simp
  then show ?thesis by (simp add: index_read_def)
qed

text \<open>
  C9. The indices one primitive appends are 16-bit values read at the elements of its
  index accessor and widened, whatever the accessor's component type; each is below
  65536, and so is every element of the index buffer after a load.
\<close>

theorem indices_below_65536:
  "(load_primitive L model T p g = Inr g1 \<longrightarrow>
      indicies g1 = indicies g @
        map (index_read L model (index_accessor model p))
          [0 ..< unat (acc_count (index_accessor model p))])
   \<and> unat (index_read L model acc index) < 65536
   \<and> (load_gltf_model L fuel ld h = Inr h1 \<longrightarrow>
        list_all (\<lambda>x. unat x < 65536) (indicies h) \<longrightarrow>
        list_all (\<lambda>x. unat x < 65536) (indicies h1))"
proof (intro conjI impI)
  assume "load_primitive L model T p g = Inr g1"
  then show "indicies g1 = indicies g @
        map (index_read L model (index_accessor model p))
          [0 ..< unat (acc_count (index_accessor model p))]"
    by (rule load_primitive_indicies)
next
  show "unat (index_read L model acc index) < 65536" by (rule index_read_bound)
next
  let ?P = "\<lambda>t. list_all (\<lambda>x. unat x < 65536) (indicies t)"
  assume "load_gltf_model L fuel ld h = Inr h1" and "?P h"
  then show "?P h1"
  proof (rule load_gltf_model_invariant)
    fix T p t t'
    assume "?P t" and "load_primitive L (ld_model ld) T p t = Inr t'"
    then show "?P t'"
      by (auto simp: load_primitive_indicies list_all_iff index_read_bound)
  qed
qed

theorem indices_below_65536_witness:
  "load_primitive host sample_model sample_transform sample_primitive no_globals = Inr one_primitive_globals
   \<and> indicies one_primitive_globals = indicies no_globals @
        map (index_read host sample_model (index_accessor sample_model sample_primitive))
          [0 ..< unat (acc_count (index_accessor sample_model sample_primitive))]
   \<and> load_gltf_model host (Suc 1) sample_loaded no_globals = Inr sample_globals
   \<and> list_all (\<lambda>x. unat x < 65536) (indicies no_globals)
   \<and> list_all (\<lambda>x. unat x < 65536) (indicies sample_globals)"
  using indices_below_65536 [where L = host and model = sample_model and T = sample_transform
      and p = sample_primitive and g = no_globals and ?g1.0 = one_primitive_globals
      and fuel = "Suc 1" and ld = sample_loaded and h = no_globals and ?h1.0 = sample_globals]
    sample_primitive_run sample_model_run
  by (simp add: no_globals_def)

text \<open>
  C2. One primitive appends exactly one draw command; its \<open>indexCount\<close> is
  the count of the index accessor, its \<open>firstIndex\<close> the length of the index buffer and
  its \<open>vertexOffset\<close> the length of the vertex buffer before the primitive, each reduced
  modulo \<open>2^32\<close> by the conversion to \<^verbatim>\<open>uint32_t\<close>; its transform is the accumulated one.
\<close>

theorem one_draw_cmd_per_primitive:
  assumes "load_primitive L model T p g = Inr g'"
  shows "\<exists>d. drawObjects g' = drawObjects g @ [d]
     \<and> unat (indexCount d) = unat (acc_count (index_accessor model p)) mod 2 ^ 32
     \<and> unat (firstIndex d) = length (indicies g) mod 2 ^ 32
     \<and> unat (vertexOffset d) = length (vertices g) mod 2 ^ 32
     \<and> transform d = T"
  unfolding load_primitive_drawObjects [OF assms]
  by (simp add: unat_ucast_mod unat_of_nat)

theorem one_draw_cmd_per_primitive_witness:
  "load_primitive host sample_model sample_transform sample_primitive no_globals = Inr one_primitive_globals
   \<and> (\<exists>d. drawObjects one_primitive_globals = drawObjects no_globals @ [d]
     \<and> unat (indexCount d) = unat (acc_count (index_accessor sample_model sample_primitive)) mod 2 ^ 32
     \<and> unat (firstIndex d) = length (indicies no_globals) mod 2 ^ 32
     \<and> unat (vertexOffset d) = length (vertices no_globals) mod 2 ^ 32
     \<and> transform d = sample_transform)"
  using one_draw_cmd_per_primitive [OF sample_primitive_run] sample_primitive_run by simp

section \<open>A primitive of \<open>2^32\<close> indices\<close>

lemma push_indices_loop_ok:
  assumes "\<And>i. i \<in> set is \<Longrightarrow>
    unat (bv_byteOffset V) + unat (acc_byteOffset A) + unat (st * of_nat i) + 2 \<le> length (data B)"
  shows "for_each is (push_index L B V A st) g =
    Inr (g\<lparr>indicies := indicies g @
           map (\<lambda>index. ucast (uint16_at L (bytes_at (data B)
                  (unat (bv_byteOffset V) + unat (acc_byteOffset A) + unat (st * of_nat index)) 2))) is\<rparr>)"
  using assms
proof (induction "is" arbitrary: g)
  case Nil
  then show ?case by simp
next
  case (Cons i "is")
  have "push_index L B V A st i g =
    Inr (g\<lparr>indicies := indicies g @ [ucast (uint16_at L (bytes_at (data B)
                  (unat (bv_byteOffset V) + unat (acc_byteOffset A) + unat (st * of_nat i)) 2))]\<rparr>)"
    using Cons.prems [of i] by (simp add: push_index_def Let_def)
  then show ?case using Cons.IH Cons.prems by simp
qed

lemma le_word_zeros: "le_word (replicate n 0) = 0"
  by (induction n) (simp_all add: le_word_def)

lemma bytes_at_zeros: "bytes_at (replicate N 0) off n = replicate (min n (N - off)) 0"
  by (simp add: bytes_at_def)

lemma unat_twice:
  assumes "i < 4294967296"
  shows "unat ((2 :: size_t) * of_nat i) = 2 * i"
  using assms by (simp add: unat_word_ariths unat_of_nat)

lemma huge_indices:
  "for_each [0 ..< 4294967296]
     (push_index host \<lparr>data = replicate 8589934604 0\<rparr>
        \<lparr>buffer = 0, bv_byteOffset = 12, byteStride = 0\<rparr>
        \<lparr>bufferView = 1, acc_byteOffset = 0, componentType = 5123,
          acc_count = 4294967296, acc_type = 65\<rparr> 2) g
   = Inr (g\<lparr>indicies := indicies g @ replicate 4294967296 0\<rparr>)"
proof -
  have "map (\<lambda>index. ucast (le_word (bytes_at (replicate 8589934604 0)
              (12 + unat ((2 :: size_t) * of_nat index)) 2) :: u16) :: u32) [0 ..< 4294967296]
        = map (\<lambda>index. 0) [0 ..< 4294967296]"
    by (rule map_cong) (simp_all add: bytes_at_zeros le_word_zeros)
  also have "\<dots> = replicate 4294967296 0"
    by (simp add: map_replicate_const)
  finally show ?thesis
    by (subst push_indices_loop_ok) (simp_all add: unat_twice host_def)
qed

lemma huge_primitive_run:
  "load_primitive host huge_model [1,0,0,0, 0,1,0,0, 0,0,1,0, 0,0,0,1] sample_primitive no_globals
     = Inr huge_globals"
proof -
  have stride: "tinygltf_ByteStride \<lparr>bufferView = 1, acc_byteOffset = 0, componentType = 5123,
          acc_count = 4294967296, acc_type = 65\<rparr> \<lparr>buffer = 0, bv_byteOffset = 12, byteStride = 0\<rparr> = 2"
    "tinygltf_ByteStride \<lparr>bufferView = 0, acc_byteOffset = 0, componentType = 5126,
          acc_count = 1, acc_type = 3\<rparr> \<lparr>buffer = 0, bv_byteOffset = 0, byteStride = 0\<rparr> = 12"
    by (simp_all add: tinygltf_ByteStride_def GetComponentSizeInBytes_def
        GetNumComponentsInType_def)
  have host: "ByteStride host = tinygltf_ByteStride" "float_at host = le_word"
    "float_0_7 host = 0x3F333333"
    by (simp_all add: host_def)
  show ?thesis
    by (simp add: load_primitive_def huge_model_def sample_primitive_def at_def host stride
        huge_indices push_vertex_def bytes_at_zeros le_word_zeros no_globals_def huge_globals_def)
qed

lemma int_mat4_mul_identity:
  "int_mat4_mul [1,0,0,0, 0,1,0,0, 0,0,1,0, 0,0,0,1] [1,0,0,0, 0,1,0,0, 0,0,1,0, 0,0,0,1]
     = [1,0,0,0, 0,1,0,0, 0,0,1,0, 0,0,0,1]"
  by code_simp

lemma huge_model_run: "load_gltf_model host 1 huge_loaded no_globals = Inr huge_globals"
proof -
  have local: "mat4_mul host (local_matrix host huge_model 0) (mat4_diag1 host)
                 = [1,0,0,0, 0,1,0,0, 0,0,1,0, 0,0,0,1]"
    by (simp add: local_matrix_def huge_model_def host_def int_mat4_mul_identity)
  have node: "nodes huge_model = [\<lparr>matrix = [], mesh = 0, children = []\<rparr>]"
    and mesh: "meshes huge_model = [\<lparr>primitives = [sample_primitive]\<rparr>]"
    and scene: "scenes huge_model = [\<lparr>scene_nodes = [0]\<rparr>]" "defaultScene huge_model = 0"
    by (simp_all add: huge_model_def)
  have "load_gltf_node host (Suc 0) huge_model 0 (mat4_diag1 host) no_globals = Inr huge_globals"
    by (simp add: load_gltf_node_Suc local node mesh load_mesh_def at_def huge_primitive_run)
  then show ?thesis
    by (simp add: load_gltf_model_def huge_loaded_def scene at_def)
qed

text \<open>
  C2, on a primitive of \<open>2^32\<close> indices: the load returns, and the draw
  command it appended has \<open>indexCount\<close> 0 while the count of the index accessor is
  4294967296.
\<close>

theorem index_count_truncated:
  "load_gltf_model host 1 huge_loaded no_globals = Inr huge_globals
   \<and> length (drawObjects huge_globals) = 1
   \<and> unat (indexCount (hd (drawObjects huge_globals))) = 0
   \<and> unat (acc_count (index_accessor huge_model sample_primitive)) = 4294967296"
  using huge_model_run
  by (simp add: huge_globals_def index_accessor_def huge_model_def sample_primitive_def)

section \<open>Transforms along the traversal\<close>

lemma accumulated_Cons:
  "accumulated L model T (n # path) =
     accumulated L model (mat4_mul L (local_matrix L model n) T) path"
  by (simp add: accumulated_def)

lemma dfs_paths_nonempty: "path \<in> set (dfs_paths depth model n) \<Longrightarrow> path \<noteq> []"
  by (induction depth arbitrary: n path) auto

lemma primitives_transforms:
  assumes "for_each ps (load_primitive L model T) g = Inr g'"
  shows "map transform (drawObjects g') = map transform (drawObjects g) @ replicate (length ps) T"
  using assms
proof (induction ps arbitrary: g)
  case Nil
  then show ?case by simp
next
  case (Cons p ps)
  from Cons.prems obtain t where t: "load_primitive L model T p g = Inr t"
      "for_each ps (load_primitive L model T) t = Inr g'"
    by (auto simp: and_then_eq_Inr)
  show ?case
    using Cons.IH [OF t(2)] load_primitive_drawObjects [OF t(1)]
    by (simp add: replicate_append_same)
qed

lemma load_mesh_transforms:
  assumes "load_mesh L model (nodes model ! nat n) T g = Inr g'"
  shows "map transform (drawObjects g') =
         map transform (drawObjects g) @ replicate (primitive_count model n) T"
proof (cases "mesh (nodes model ! nat n) \<ge> 0")
  case True
  with assms have
    "for_each (primitives (meshes model ! nat (mesh (nodes model ! nat n))))
       (load_primitive L model T) g = Inr g'"
    by (auto simp: load_mesh_def and_then_eq_Inr at_eq_Inr)
  from primitives_transforms [OF this] True show ?thesis
    by (simp add: primitive_count_def)
next
  case False
  with assms show ?thesis by (simp add: load_mesh_def primitive_count_def)
qed

lemma children_transforms:
  assumes "for_each cs (\<lambda>c s. load_gltf_node L fuel model c T s) g = Inr g'"
    and "\<And>c t t'. load_gltf_node L fuel model c T t = Inr t' \<Longrightarrow>
           map transform (drawObjects t') = map transform (drawObjects t) @ F c"
  shows "map transform (drawObjects g') = map transform (drawObjects g) @ concat (map F cs)"
  using assms(1)
proof (induction cs arbitrary: g)
  case Nil
  then show ?case by simp
next
  case (Cons c cs)
  from Cons.prems obtain t where t: "load_gltf_node L fuel model c T t0 = Inr t"
      "for_each cs (\<lambda>c s. load_gltf_node L fuel model c T s) t = Inr g'" if "t0 = g" for t0
    by (auto simp: and_then_eq_Inr)
  show ?case
    using Cons.IH [OF t(2)] assms(2) [OF t(1)] by simp
qed

lemma concat_map_concat:
  "concat (map f (concat xss)) = concat (map (\<lambda>xs. concat (map f xs)) xss)"
  by (induction xss) simp_all

lemma visit_transforms_Suc:
  "visit_transforms L (Suc depth) model T n =
     replicate (primitive_count model n) (mat4_mul L (local_matrix L model n) T)
     @ concat (map (visit_transforms L depth model (mat4_mul L (local_matrix L model n) T))
                 (children (nodes model ! nat n)))"
proof -
  let ?T = "mat4_mul L (local_matrix L model n) T"
  let ?f = "\<lambda>T path. replicate (primitive_count model (last path)) (accumulated L model T path)"
  let ?below = "concat (map (dfs_paths depth model) (children (nodes model ! nat n)))"
  have shift: "concat (map (?f T) (map ((#) n) ps)) = concat (map (?f ?T) ps)"
    if "\<And>path. path \<in> set ps \<Longrightarrow> path \<noteq> []" for ps
    using that by (induction ps) (simp_all add: accumulated_Cons)
  have ne: "path \<noteq> []" if "path \<in> set ?below" for path
    using that by (auto dest: dfs_paths_nonempty)
  have "visit_transforms L (Suc depth) model T n
          = ?f T [n] @ concat (map (?f T) (map ((#) n) ?below))"
    by (simp add: visit_transforms_def)
  also have "?f T [n] = replicate (primitive_count model n) ?T"
    by (simp add: accumulated_def)
  also have "concat (map (?f T) (map ((#) n) ?below)) = concat (map (?f ?T) ?below)"
    using ne by (rule shift)
  also have "\<dots> = concat (map (visit_transforms L depth model ?T)
                        (children (nodes model ! nat n)))"
    unfolding visit_transforms_def by (simp add: concat_map_concat comp_def)
  finally show ?thesis .
qed

lemma load_gltf_node_transforms:
  assumes "load_gltf_node L fuel model n T g = Inr g'"
  shows "map transform (drawObjects g') =
         map transform (drawObjects g) @ visit_transforms L fuel model T n"
  using assms
proof (induction fuel arbitrary: n T g g')
  case 0
  then show ?case by (simp add: load_gltf_node.simps)
next
  case (Suc fuel)
  show ?case
  proof (cases "0 \<le> n \<and> n < int (length (nodes model))")
    case True
    let ?T = "mat4_mul L (local_matrix L model n) T"
    from Suc.prems True obtain g1 where
      g1: "load_mesh L model (nodes model ! nat n) ?T g = Inr g1"
      and g': "for_each (children (nodes model ! nat n))
                 (\<lambda>c s. load_gltf_node L fuel model c ?T s) g1 = Inr g'"
      by (auto simp: load_gltf_node_Suc and_then_eq_Inr)
    have "map transform (drawObjects g') = map transform (drawObjects g1)
            @ concat (map (visit_transforms L fuel model ?T) (children (nodes model ! nat n)))"
      using g' by (rule children_transforms) (rule Suc.IH)
    then show ?thesis
      by (simp add: load_mesh_transforms [OF g1] visit_transforms_Suc)
  next
    case False
    with Suc.prems show ?thesis by (simp add: load_gltf_node_out_of_range)
  qed
qed

text \<open>
  C1. The draw commands a traversal from node \<open>n\<close> appends carry, in visiting order and
  once per primitive, the accumulated transform of the node they belong to: along the
  path from \<open>n\<close> each node multiplies its local transform (the matrix of its 16 elements,
  or the identity) by what its parent accumulated, starting from the transform \<open>n\<close> was
  entered with. A load enters every root of the default scene with the identity.
\<close>

theorem accumulated_transforms:
  "(load_gltf_node L fuel model n T g = Inr g1 \<longrightarrow>
      map transform (drawObjects g1) =
        map transform (drawObjects g) @ visit_transforms L fuel model T n)
   \<and> (load_gltf_model L fuel' ld h = Inr h1 \<longrightarrow>
        map transform (drawObjects h1) =
          map transform (drawObjects h)
          @ concat (map (visit_transforms L fuel' (ld_model ld) (mat4_diag1 L))
               (scene_nodes (scenes (ld_model ld) ! nat (defaultScene (ld_model ld))))))"
proof (intro conjI impI)
  assume "load_gltf_node L fuel model n T g = Inr g1"
  then show "map transform (drawObjects g1) =
        map transform (drawObjects g) @ visit_transforms L fuel model T n"
    by (rule load_gltf_node_transforms)
next
  let ?roots = "scene_nodes (scenes (ld_model ld) ! nat (defaultScene (ld_model ld)))"
  assume "load_gltf_model L fuel' ld h = Inr h1"
  then have "for_each ?roots
       (\<lambda>r s. load_gltf_node L fuel' (ld_model ld) r (mat4_diag1 L) s) h = Inr h1"
    by (auto simp: load_gltf_model_def Let_def and_then_eq_Inr at_eq_Inr split: if_splits)
  then show "map transform (drawObjects h1) =
          map transform (drawObjects h)
          @ concat (map (visit_transforms L fuel' (ld_model ld) (mat4_diag1 L)) ?roots)"
    by (rule children_transforms) (rule load_gltf_node_transforms)
qed

lemma sample_roots:
  "ld_model sample_loaded = sample_model"
  "scene_nodes (scenes sample_model ! nat (defaultScene sample_model)) = [0]"
  by (simp_all add: sample_loaded_def sample_model_def)

lemma sample_visit_transforms:
  "visit_transforms host (Suc 1) sample_model (mat4_diag1 host) 0 =
     [[2,0,0,0, 0,2,0,0, 0,0,2,0, 2,0,0,1], [1,0,0,0, 0,1,0,0, 0,0,1,0, 1,0,0,1]]"
  by code_simp

theorem accumulated_transforms_witness:
  "load_gltf_node host (Suc 1) sample_model 0 (mat4_diag1 host) no_globals = Inr sample_globals
   \<and> map transform (drawObjects sample_globals) =
       map transform (drawObjects no_globals)
       @ visit_transforms host (Suc 1) sample_model (mat4_diag1 host) 0
   \<and> visit_transforms host (Suc 1) sample_model (mat4_diag1 host) 0 =
       [[2,0,0,0, 0,2,0,0, 0,0,2,0, 2,0,0,1], [1,0,0,0, 0,1,0,0, 0,0,1,0, 1,0,0,1]]
   \<and> load_gltf_model host (Suc 1) sample_loaded no_globals = Inr sample_globals
   \<and> map transform (drawObjects sample_globals) =
       map transform (drawObjects no_globals)
       @ concat (map (visit_transforms host (Suc 1) (ld_model sample_loaded) (mat4_diag1 host))
           (scene_nodes (scenes (ld_model sample_loaded)
              ! nat (defaultScene (ld_model sample_loaded)))))"
  using accumulated_transforms [where L = host and fuel = "Suc 1" and model = sample_model
      and n = 0 and T = "mat4_diag1 host" and g = no_globals and ?g1.0 = sample_globals
      and fuel' = "Suc 1" and ld = sample_loaded and h = no_globals and ?h1.0 = sample_globals]
    sample_node_run sample_model_run sample_visit_transforms
  by (simp add: sample_roots)

section \<open>Nodes without a mesh\<close>

lemma sample_children_transforms:
  "concat (map (visit_transforms host 1 sample_model
                  (mat4_mul host (local_matrix host sample_model 0) (mat4_diag1 host)))
             (children (nodes sample_model ! nat 0)))
     = [[2,0,0,0, 0,2,0,0, 0,0,2,0, 2,0,0,1], [1,0,0,0, 0,1,0,0, 0,0,1,0, 1,0,0,1]]"
  by code_simp

text \<open>
  C10. The local transform of a node is always obtained without reading outside
  \<^verbatim>\<open>node.matrix\<close>: it is the matrix of the 16 elements when there are exactly 16 and
  the identity for every other size. A node with \<^verbatim>\<open>node.mesh < 0\<close> leaves the vertex
  buffer, the index buffer and the draw commands as they are, and its children are
  traversed all the same: when the traversal of such a node returns, the draw commands
  appended are those of the subtrees of its children, in order, each entered with the
  accumulated transform of the node.
\<close>

theorem matrix_reads_guarded:
  "node_local_transform L node =
     Inr (if length (matrix node) = 16 then mat4_16 L (matrix node) else mat4_diag1 L)
   \<and> (mesh node < 0 \<longrightarrow> load_mesh L model node T g = Inr g)
   \<and> (0 \<le> n \<and> n < int (length (nodes model)) \<and> mesh (nodes model ! nat n) < 0
        \<and> load_gltf_node L (Suc fuel) model n T g = Inr g' \<longrightarrow>
        map transform (drawObjects g') =
          map transform (drawObjects g)
          @ concat (map (visit_transforms L fuel model (mat4_mul L (local_matrix L model n) T))
                      (children (nodes model ! nat n))))"
proof (intro conjI impI)
  show "node_local_transform L node =
     Inr (if length (matrix node) = 16 then mat4_16 L (matrix node) else mat4_diag1 L)"
    by (rule node_local_transform_eq)
next
  assume "mesh node < 0"
  then show "load_mesh L model node T g = Inr g" by (simp add: load_mesh_def)
next
  assume a: "0 \<le> n \<and> n < int (length (nodes model)) \<and> mesh (nodes model ! nat n) < 0
        \<and> load_gltf_node L (Suc fuel) model n T g = Inr g'"
  then have "primitive_count model n = 0" by (simp add: primitive_count_def)
  with load_gltf_node_transforms [of L "Suc fuel" model n T g g'] a
  show "map transform (drawObjects g') =
          map transform (drawObjects g)
          @ concat (map (visit_transforms L fuel model (mat4_mul L (local_matrix L model n) T))
                      (children (nodes model ! nat n)))"
    by (simp add: visit_transforms_Suc)
qed

theorem matrix_reads_guarded_witness:
  "node_local_transform host (nodes sample_model ! 0) = Inr [1,0,0,0, 0,1,0,0, 0,0,1,0, 1,0,0,1]
   \<and> node_local_transform host (nodes sample_model ! 2) = Inr [1,0,0,0, 0,1,0,0, 0,0,1,0, 0,0,0,1]
   \<and> mesh (nodes sample_model ! 0) < 0
   \<and> load_mesh host sample_model (nodes sample_model ! 0) (mat4_diag1 host) no_globals
       = Inr no_globals
   \<and> load_gltf_node host (Suc 1) sample_model 0 (mat4_diag1 host) no_globals = Inr sample_globals
   \<and> map transform (drawObjects sample_globals) =
       map transform (drawObjects no_globals)
       @ [[2,0,0,0, 0,2,0,0, 0,0,2,0, 2,0,0,1], [1,0,0,0, 0,1,0,0, 0,0,1,0, 1,0,0,1]]"
  using matrix_reads_guarded [where L = host and node = "nodes sample_model ! 0"
      and model = sample_model and T = "mat4_diag1 host" and g = no_globals and n = 0
      and fuel = 1 and g' = sample_globals]
    matrix_reads_guarded [where L = host and node = "nodes sample_model ! 2"
      and model = sample_model and T = "mat4_diag1 host" and g = no_globals and n = 0
      and fuel = 1 and g' = sample_globals]
    sample_node_run sample_children_transforms
  by (simp add: sample_model_def host_def)

section \<open>Errors and fuel\<close>

lemma and_then_error:
  assumes "and_then m f = Inl e"
    and "m = Inl e \<Longrightarrow> P"
    and "\<And>x. m = Inr x \<Longrightarrow> f x = Inl e \<Longrightarrow> P"
  shows P
  using assms by (auto simp: and_then_eq_Inl)

lemma push_vertex_error: "push_vertex L B V A st i g = Inl e \<Longrightarrow> e = OutOfBounds"
  by (auto simp: push_vertex_def Let_def split: if_splits)

lemma push_index_error: "push_index L B V A st i g = Inl e \<Longrightarrow> e = OutOfBounds"
  by (auto simp: push_index_def Let_def split: if_splits)

lemma load_primitive_error:
  assumes "load_primitive L model T p g = Inl e"
  shows "e = OutOfBounds"
  using assms unfolding load_primitive_def Let_def
  by (elim and_then_error)
     (auto dest: at_eq_Inl for_each_error push_vertex_error push_index_error)

lemma load_mesh_error:
  assumes "load_mesh L model node T g = Inl e"
  shows "e = OutOfBounds"
  using assms unfolding load_mesh_def
  by (auto split: if_splits elim!: and_then_error dest: at_eq_Inl for_each_error load_primitive_error)

lemma for_each_more_fuel:
  assumes "for_each xs body s \<noteq> Inl OutOfFuel"
    and "\<And>x t. x \<in> set xs \<Longrightarrow> body x t \<noteq> Inl OutOfFuel \<Longrightarrow> body' x t = body x t"
  shows "for_each xs body' s = for_each xs body s"
  using assms
proof (induction xs arbitrary: s)
  case Nil
  then show ?case by simp
next
  case (Cons x xs)
  show ?case
  proof (cases "body x s")
    case (Inl e)
    with Cons.prems(1) have "body x s \<noteq> Inl OutOfFuel" by auto
    then have "body' x s = body x s" using Cons.prems(2) by simp
    then show ?thesis using Inl by simp
  next
    case (Inr t)
    then have "body' x s = Inr t" using Cons.prems(2) [of x s] by simp
    moreover have "for_each xs body' t = for_each xs body t"
      using Cons.prems Inr by (intro Cons.IH) auto
    ultimately show ?thesis using Inr by simp
  qed
qed

lemma load_gltf_node_Suc_fuel:
  assumes "load_gltf_node L fuel model n T g \<noteq> Inl OutOfFuel"
  shows "load_gltf_node L (Suc fuel) model n T g = load_gltf_node L fuel model n T g"
  using assms
proof (induction fuel arbitrary: n T g)
  case 0
  then show ?case by (simp add: load_gltf_node.simps)
next
  case (Suc fuel)
  show ?case
  proof (cases "0 \<le> n \<and> n < int (length (nodes model))")
    case True
    let ?T = "mat4_mul L (local_matrix L model n) T"
    let ?cs = "children (nodes model ! nat n)"
    show ?thesis
    proof (cases "load_mesh L model (nodes model ! nat n) ?T g")
      case (Inl e)
      with True show ?thesis by (simp add: load_gltf_node_Suc)
    next
      case (Inr g1)
      with Suc.prems True have
        "for_each ?cs (\<lambda>c s. load_gltf_node L fuel model c ?T s) g1 \<noteq> Inl OutOfFuel"
        by (simp add: load_gltf_node_Suc)
      then have "for_each ?cs (\<lambda>c s. load_gltf_node L (Suc fuel) model c ?T s) g1
                 = for_each ?cs (\<lambda>c s. load_gltf_node L fuel model c ?T s) g1"
        by (rule for_each_more_fuel) (rule Suc.IH)
      with True Inr show ?thesis by (simp add: load_gltf_node_Suc)
    qed
  next
    case False
    then show ?thesis by (simp add: load_gltf_node_out_of_range)
  qed
qed

lemma load_gltf_node_more_fuel:
  assumes "load_gltf_node L fuel model n T g \<noteq> Inl OutOfFuel" and "fuel \<le> k"
  shows "load_gltf_node L k model n T g = load_gltf_node L fuel model n T g"
  using assms(2,1)
  by (induction k rule: dec_induct) (simp_all add: load_gltf_node_Suc_fuel)

section \<open>Termination on acyclic models\<close>

lemma finite_child_rel: "finite (child_rel model)"
proof -
  have "child_rel model \<subseteq>
        int ` {..< length (nodes model)} \<times> (\<Union>node \<in> set (nodes model). set (children node))"
  proof
    fix x assume "x \<in> child_rel model"
    then obtain p c where x: "x = (p, c)" and p: "0 \<le> p" "p < int (length (nodes model))"
      and c: "c \<in> set (children (nodes model ! nat p))"
      by (auto simp: child_rel_def)
    from p have "p \<in> int ` {..< length (nodes model)}"
      by (intro image_eqI [where x = "nat p"]) auto
    moreover from p have "nodes model ! nat p \<in> set (nodes model)" by simp
    ultimately show "x \<in> int ` {..< length (nodes model)}
        \<times> (\<Union>node \<in> set (nodes model). set (children node))"
      using x c by blast
  qed
  then show ?thesis by (rule finite_subset) simp
qed

lemma child_rel_from_subset: "child_rel_from model r \<subseteq> child_rel model"
  by (auto simp: child_rel_from_def)

lemma common_fuel:
  assumes "\<And>c. c \<in> set cs \<Longrightarrow> \<exists>fuel. \<forall>T g. load_gltf_node L fuel model c T g \<noteq> Inl OutOfFuel"
  shows "\<exists>fuel. \<forall>c \<in> set cs. \<forall>T g. load_gltf_node L fuel model c T g \<noteq> Inl OutOfFuel"
  using assms
proof (induction cs)
  case Nil
  then show ?case by simp
next
  case (Cons c cs)
  then obtain k where k: "\<forall>c \<in> set cs. \<forall>T g. load_gltf_node L k model c T g \<noteq> Inl OutOfFuel"
    by auto
  from Cons.prems [of c] obtain k' where
    k': "\<forall>T g. load_gltf_node L k' model c T g \<noteq> Inl OutOfFuel"
    by auto
  have "load_gltf_node L (max k k') model x T g \<noteq> Inl OutOfFuel" if "x \<in> set (c # cs)" for x T g
  proof (cases "x = c")
    case True
    then show ?thesis
      using k' load_gltf_node_more_fuel [of L k' model c T g "max k k'"] by simp
  next
    case False
    with that have "x \<in> set cs" by simp
    then show ?thesis
      using k load_gltf_node_more_fuel [of L k model x T g "max k k'"] by simp
  qed
  then show ?case by blast
qed

lemma terminates_reachable:
  assumes acyc: "acyclic (child_rel_from model r)" and reach: "(r, n) \<in> (child_rel model)\<^sup>*"
  shows "\<exists>fuel. \<forall>T g. load_gltf_node L fuel model n T g \<noteq> Inl OutOfFuel"
proof -
  have "finite (child_rel_from model r)"
    using child_rel_from_subset finite_child_rel by (rule finite_subset)
  then have "wf ((child_rel_from model r)\<inverse>)"
    using acyc by (rule finite_acyclic_wf_converse)
  then show ?thesis using reach
  proof (induction n rule: wf_induct_rule)
    case (less n)
    show ?case
    proof (cases "0 \<le> n \<and> n < int (length (nodes model))")
      case True
      let ?cs = "children (nodes model ! nat n)"
      have "\<exists>fuel. \<forall>T g. load_gltf_node L fuel model c T g \<noteq> Inl OutOfFuel"
        if "c \<in> set ?cs" for c
      proof -
        from that True have edge: "(n, c) \<in> child_rel model" by (simp add: child_rel_def)
        with less.prems have "(n, c) \<in> child_rel_from model r" "(r, c) \<in> (child_rel model)\<^sup>*"
          by (auto simp: child_rel_from_def)
        then show ?thesis using less.IH [of c] by simp
      qed
      then obtain k where
        k: "\<forall>c \<in> set ?cs. \<forall>T g. load_gltf_node L k model c T g \<noteq> Inl OutOfFuel"
        using common_fuel by blast
      have "load_gltf_node L (Suc k) model n T g \<noteq> Inl OutOfFuel" for T g
      proof
        assume "load_gltf_node L (Suc k) model n T g = Inl OutOfFuel"
        with True show False
          unfolding load_gltf_node_Suc [OF conjunct1 [OF True] conjunct2 [OF True]]
          using k by (auto elim!: and_then_error dest: load_mesh_error for_each_error)
      qed
      then show ?thesis by blast
    next
      case False
      then have "load_gltf_node L (Suc 0) model n T g \<noteq> Inl OutOfFuel" for T g
        by (simp add: load_gltf_node_out_of_range)
      then show ?thesis by blast
    qed
  qed
qed

section \<open>The nodes a traversal visits\<close>

lemma reachable_unfold:
  "R\<^sup>* `` {n} = insert n (\<Union>c \<in> R `` {n}. R\<^sup>* `` {c})"
proof (intro set_eqI iffI)
  fix x assume "x \<in> R\<^sup>* `` {n}"
  then have "(n, x) \<in> R\<^sup>*" by simp
  then show "x \<in> insert n (\<Union>c \<in> R `` {n}. R\<^sup>* `` {c})"
    by (cases rule: converse_rtranclE) auto
next
  fix x assume "x \<in> insert n (\<Union>c \<in> R `` {n}. R\<^sup>* `` {c})"
  then show "x \<in> R\<^sup>* `` {n}"
    by (auto intro: converse_rtrancl_into_rtrancl)
qed

lemma last_Cons_image:
  assumes "\<And>path. path \<in> P \<Longrightarrow> path \<noteq> []"
  shows "last ` ((#) n) ` P = last ` P"
proof -
  have "last (n # path) = last path" if "path \<in> P" for path
    using assms [OF that] by simp
  then show ?thesis by (simp add: image_image)
qed

lemma for_each_Inr_each:
  assumes "for_each xs body s = Inr s'" and "x \<in> set xs"
  shows "\<exists>t t'. body x t = Inr t'"
  using assms
proof (induction xs arbitrary: s)
  case Nil
  then show ?case by simp
next
  case (Cons y ys)
  from Cons.prems(1) obtain t where t: "body y s = Inr t" "for_each ys body t = Inr s'"
    by (auto simp: and_then_eq_Inr)
  show ?case
  proof (cases "x = y")
    case True
    with t(1) show ?thesis by blast
  next
    case False
    with Cons.prems(2) have "x \<in> set ys" by simp
    with t(2) show ?thesis by (rule Cons.IH)
  qed
qed

lemma last_dfs_paths_Suc:
  "last ` set (dfs_paths (Suc depth) model n) =
     insert n (\<Union>c \<in> set (children (nodes model ! nat n)). last ` set (dfs_paths depth model c))"
proof -
  let ?P = "\<Union>c \<in> set (children (nodes model ! nat n)). set (dfs_paths depth model c)"
  have "path \<noteq> []" if "path \<in> ?P" for path
    using that dfs_paths_nonempty by blast
  then have "last ` ((#) n) ` ?P = last ` ?P" by (rule last_Cons_image)
  moreover have "set (dfs_paths (Suc depth) model n) = insert [n] (((#) n) ` ?P)"
    by simp
  ultimately show ?thesis by (simp add: image_UN)
qed

lemma returns_visits_reachable:
  assumes "load_gltf_node L fuel model n T g = Inr g'"
  shows "last ` set (dfs_paths fuel model n) = (child_rel model)\<^sup>* `` {n}"
  using assms
proof (induction fuel arbitrary: n T g g')
  case 0
  then show ?case by (simp add: load_gltf_node.simps)
next
  case (Suc fuel)
  show ?case
  proof (cases "0 \<le> n \<and> n < int (length (nodes model))")
    case True
    let ?T = "mat4_mul L (local_matrix L model n) T"
    let ?cs = "children (nodes model ! nat n)"
    from Suc.prems True obtain g1 where
      loop: "for_each ?cs (\<lambda>c s. load_gltf_node L fuel model c ?T s) g1 = Inr g'"
      by (auto simp: load_gltf_node_Suc and_then_eq_Inr)
    have below: "last ` set (dfs_paths fuel model c) = (child_rel model)\<^sup>* `` {c}"
      if "c \<in> set ?cs" for c
    proof -
      from for_each_Inr_each [OF loop that] obtain t t' where
        "load_gltf_node L fuel model c ?T t = Inr t'" by blast
      then show ?thesis by (rule Suc.IH)
    qed
    have edges: "child_rel model `` {n} = set ?cs"
      using True by (auto simp: child_rel_def)
    have "last ` set (dfs_paths (Suc fuel) model n)
            = insert n (\<Union>c \<in> set ?cs. (child_rel model)\<^sup>* `` {c})"
      unfolding last_dfs_paths_Suc using below by simp
    also have "\<dots> = (child_rel model)\<^sup>* `` {n}"
      unfolding reachable_unfold [of "child_rel model" n] edges ..
    finally show ?thesis .
  next
    case False
    with Suc.prems show ?thesis by (simp add: load_gltf_node_out_of_range)
  qed
qed

text \<open>
  C8. When the node-children relation on the nodes reachable from \<open>n\<close> has no cycle,
  the recursion from \<open>n\<close> returns: some depth suffices for every transform and every
  state of the globals, and with any greater depth the outcome is the same. When it
  returns normally, the nodes it has visited depth-first are exactly those reachable
  from \<open>n\<close>.
\<close>

theorem traversal_terminates:
  assumes "acyclic (child_rel_from model n)"
  shows "\<exists>fuel. \<forall>T g. load_gltf_node L fuel model n T g \<noteq> Inl OutOfFuel
           \<and> (\<forall>k \<ge> fuel. load_gltf_node L k model n T g = load_gltf_node L fuel model n T g)
           \<and> (\<forall>g'. load_gltf_node L fuel model n T g = Inr g' \<longrightarrow>
                  last ` set (dfs_paths fuel model n) = (child_rel model)\<^sup>* `` {n})"
proof -
  from terminates_reachable [OF assms rtrancl.rtrancl_refl] obtain fuel where
    "\<forall>T g. load_gltf_node L fuel model n T g \<noteq> Inl OutOfFuel"
    by blast
  then show ?thesis
    by (intro exI [of _ fuel]) (simp add: load_gltf_node_more_fuel returns_visits_reachable)
qed

lemma sample_acyclic: "acyclic (child_rel_from sample_model 0)"
proof -
  have "acyclic (child_rel sample_model)"
  proof (rule acyclicI_order [where f = "\<lambda>i. - i"])
    fix a b :: int
    assume "(a, b) \<in> child_rel sample_model"
    then have "a = 0 \<and> (b = 1 \<or> b = 2)"
      by (auto simp: child_rel_def sample_model_def nth_Cons' split: if_splits)
    then show "- b < - a" by auto
  qed
  then show ?thesis using child_rel_from_subset by (rule acyclic_subset)
qed

theorem traversal_terminates_witness:
  "acyclic (child_rel_from sample_model 0)
   \<and> (\<exists>fuel. \<forall>T g. load_gltf_node host fuel sample_model 0 T g \<noteq> Inl OutOfFuel
           \<and> (\<forall>k \<ge> fuel. load_gltf_node host k sample_model 0 T g
                              = load_gltf_node host fuel sample_model 0 T g)
           \<and> (\<forall>g'. load_gltf_node host fuel sample_model 0 T g = Inr g' \<longrightarrow>
                  last ` set (dfs_paths fuel sample_model 0) = (child_rel sample_model)\<^sup>* `` {0}))
   \<and> load_gltf_node host (Suc 1) sample_model 0 (mat4_diag1 host) no_globals = Inr sample_globals"
  using traversal_terminates [OF sample_acyclic, where L = host] sample_acyclic sample_node_run
  by simp

section \<open>Throwing\<close>

lemma load_gltf_node_error:
  assumes "load_gltf_node L fuel model n T g = Inl e"
  shows "e = OutOfBounds \<or> e = OutOfFuel"
  using assms
proof (induction fuel arbitrary: n T g)
  case 0
  then show ?case by (simp add: load_gltf_node.simps)
next
  case (Suc fuel)
  show ?case
  proof (cases "0 \<le> n \<and> n < int (length (nodes model))")
    case True
    from Suc.prems show ?thesis
      unfolding load_gltf_node_Suc [OF conjunct1 [OF True] conjunct2 [OF True]]
    proof (rule and_then_error)
      assume "load_mesh L model (nodes model ! nat n)
                (mat4_mul L (local_matrix L model n) T) g = Inl e"
      then show ?thesis by (simp add: load_mesh_error)
    next
      fix g1
      assume "for_each (children (nodes model ! nat n))
                (\<lambda>c s. load_gltf_node L fuel model c (mat4_mul L (local_matrix L model n) T) s) g1
              = Inl e"
      from for_each_error [OF this] show ?thesis using Suc.IH by blast
    qed
  next
    case False
    with Suc.prems show ?thesis by (simp add: load_gltf_node_out_of_range)
  qed
qed

lemma flatten_never_throws:
  assumes "err ld = []" and "ret ld"
  shows "load_gltf_model L fuel ld g \<noteq> Inl (RuntimeError msg s)"
proof
  assume "load_gltf_model L fuel ld g = Inl (RuntimeError msg s)"
  with assms have "and_then (at (scenes (ld_model ld)) (defaultScene (ld_model ld)))
      (\<lambda>scene. for_each (scene_nodes scene)
         (\<lambda>r s. load_gltf_node L fuel (ld_model ld) r (mat4_diag1 L) s) g)
      = Inl (RuntimeError msg s)"
    by (simp add: load_gltf_model_def)
  then show False
  proof (rule and_then_error)
    assume "at (scenes (ld_model ld)) (defaultScene (ld_model ld)) = Inl (RuntimeError msg s)"
    then show False by (auto dest: at_eq_Inl)
  next
    fix scene :: Scene
    assume "for_each (scene_nodes scene)
         (\<lambda>r s. load_gltf_node L fuel (ld_model ld) r (mat4_diag1 L) s) g
         = Inl (RuntimeError msg s)"
    from for_each_error [OF this] show False by (auto dest: load_gltf_node_error)
  qed
qed

text \<open>
  C3. \<^verbatim>\<open>load_gltf_model\<close> throws exactly when the loader left a non-empty error string or
  returned failure; the warning string has no influence on its outcome; and when it
  throws, the globals at the throw are the ones it was called with.
\<close>

theorem load_gltf_model_throws:
  "((\<exists>msg s. load_gltf_model L fuel ld g = Inl (RuntimeError msg s))
       \<longleftrightarrow> (err ld \<noteq> [] \<or> \<not> ret ld))
   \<and> (load_gltf_model L fuel ld g = Inl (RuntimeError msg s) \<longrightarrow> s = g)
   \<and> load_gltf_model L fuel (ld\<lparr>warn := w\<rparr>) g = load_gltf_model L fuel ld g"
proof (intro conjI)
  show "(\<exists>msg s. load_gltf_model L fuel ld g = Inl (RuntimeError msg s))
          \<longleftrightarrow> (err ld \<noteq> [] \<or> \<not> ret ld)"
  proof
    assume "\<exists>msg s. load_gltf_model L fuel ld g = Inl (RuntimeError msg s)"
    then show "err ld \<noteq> [] \<or> \<not> ret ld" using flatten_never_throws by blast
  next
    assume "err ld \<noteq> [] \<or> \<not> ret ld"
    then show "\<exists>msg s. load_gltf_model L fuel ld g = Inl (RuntimeError msg s)"
      by (auto simp: load_gltf_model_def)
  qed
  show "load_gltf_model L fuel ld g = Inl (RuntimeError msg s) \<longrightarrow> s = g"
  proof
    assume thrown: "load_gltf_model L fuel ld g = Inl (RuntimeError msg s)"
    then have "err ld \<noteq> [] \<or> \<not> ret ld" using flatten_never_throws by blast
    with thrown show "s = g" by (auto simp: load_gltf_model_def split: if_splits)
  qed
  show "load_gltf_model L fuel (ld\<lparr>warn := w\<rparr>) g = load_gltf_model L fuel ld g"
    by (simp add: load_gltf_model_def)
qed

lemma failed_model_run:
  "load_gltf_model host (Suc 1) failed_loaded no_globals
     = Inl (RuntimeError ''glTF parsing error'' no_globals)"
  by code_simp

theorem load_gltf_model_throws_witness:
  "load_gltf_model host (Suc 1) failed_loaded no_globals
     = Inl (RuntimeError ''glTF parsing error'' no_globals)
   \<and> err failed_loaded \<noteq> []
   \<and> warn sample_loaded \<noteq> [] \<and> err sample_loaded = [] \<and> ret sample_loaded
   \<and> load_gltf_model host (Suc 1) sample_loaded no_globals = Inr sample_globals
   \<and> load_gltf_model host (Suc 1) (sample_loaded\<lparr>warn := []\<rparr>) no_globals = Inr sample_globals"
  using load_gltf_model_throws [where L = host and fuel = "Suc 1" and ld = failed_loaded
      and g = no_globals and msg = "''glTF parsing error''" and s = no_globals and w = "[]"]
    load_gltf_model_throws [where L = host and fuel = "Suc 1" and ld = sample_loaded
      and g = no_globals and msg = "[]" and s = no_globals and w = "[]"]
    failed_model_run sample_model_run
  by (simp add: failed_loaded_def sample_loaded_def)

section \<open>The render callback\<close>

lemma write_uniforms_result:
  assumes "write_uniforms L img g i ds ub = Inr ub'" and "0 \<le> i"
  shows "length ub' = length ub
    \<and> (\<forall>j < length ds.
          img * length (drawObjects g) + nat i + j < length ub
          \<and> ub' ! (img * length (drawObjects g) + nat i + j)
              = Some \<lparr>modelMtx = transform (ds ! j),
                      viewProjMtx = mat4_mul L (projMtx g) (viewMtx g)\<rparr>)
    \<and> (\<forall>k. k < img * length (drawObjects g) + nat i
              \<or> img * length (drawObjects g) + nat i + length ds \<le> k \<longrightarrow> ub' ! k = ub ! k)"
  using assms
proof (induction ds arbitrary: i ub)
  case Nil
  then show ?case by simp
next
  case (Cons d ds)
  let ?slot = "img * length (drawObjects g) + nat i"
  let ?u = "\<lparr>modelMtx = transform d, viewProjMtx = mat4_mul L (projMtx g) (viewMtx g)\<rparr>"
  from Cons.prems(1) have slot: "?slot < length ub"
    and rest: "write_uniforms L img g (i + 1) ds (ub[?slot := Some ?u]) = Inr ub'"
    by (auto simp: Let_def split: if_splits)
  have i1: "nat (i + 1) = Suc (nat i)" and i0: "0 \<le> i + 1" using Cons.prems(2) by simp_all
  note ih = Cons.IH [OF rest i0, unfolded i1]
  have len: "length ub' = length ub" using ih by simp
  have new: "?slot + Suc j < length ub
          \<and> ub' ! (?slot + Suc j) = Some \<lparr>modelMtx = transform (ds ! j),
                      viewProjMtx = mat4_mul L (projMtx g) (viewMtx g)\<rparr>"
    if "j < length ds" for j
    using ih [THEN conjunct2, THEN conjunct1, rule_format, OF that] by simp
  have first: "ub' ! ?slot = Some ?u"
    using ih [THEN conjunct2, THEN conjunct2, rule_format, of ?slot] slot by simp
  have old: "ub' ! k = ub ! k" if "k < ?slot \<or> ?slot + Suc (length ds) \<le> k" for k
  proof -
    have "ub' ! k = (ub[?slot := Some ?u]) ! k"
      using ih [THEN conjunct2, THEN conjunct2, rule_format, of k] that by auto
    also have "\<dots> = ub ! k" using that by (intro nth_list_update_neq) auto
    finally show ?thesis .
  qed
  show ?case
  proof (intro conjI allI impI)
    show "length ub' = length ub" by (rule len)
  next
    fix j assume j: "j < length (d # ds)"
    show "?slot + j < length ub"
      using slot new [of "j - 1"] j by (cases j) simp_all
    show "ub' ! (?slot + j) = Some \<lparr>modelMtx = transform ((d # ds) ! j),
                      viewProjMtx = mat4_mul L (projMtx g) (viewMtx g)\<rparr>"
    proof (cases j)
      case 0
      then show ?thesis using first by simp
    next
      case (Suc j')
      then show ?thesis using new [of j'] j by simp
    qed
  next
    fix k assume "k < ?slot \<or> ?slot + length (d # ds) \<le> k"
    then show "ub' ! k = ub ! k" using old [of k] by simp
  qed
qed

lemma render_result:
  assumes "render L cam fr s = Inr s'"
  shows "\<exists>ub cmds.
    write_uniforms L (imageIndex fr)
      ((glob s)\<lparr>viewMtx := lookAt_at cam (time fr),
                projMtx := perspective_for cam (width fr) (height fr)\<rparr>)
      0 (drawObjects (glob s)) (uniformBufferGPU s) = Inr ub
    \<and> s' = s\<lparr>glob := (glob s)\<lparr>viewMtx := lookAt_at cam (time fr),
                                projMtx := perspective_for cam (width fr) (height fr)\<rparr>,
              uniformBufferGPU := ub, recorded := cmds\<rparr>"
  using assms
  by (auto simp: render_def Let_def and_then_eq_Inr split: if_splits)

text \<open>
  C4. The render callback leaves \<open>vertices\<close>, \<open>indicies\<close> and \<open>drawObjects\<close> as they are,
  in one frame and over any number of frames.
\<close>

theorem render_keeps_buffers:
  "(render L cam fr s = Inr s1 \<longrightarrow>
      vertices (glob s1) = vertices (glob s) \<and> indicies (glob s1) = indicies (glob s)
      \<and> drawObjects (glob s1) = drawObjects (glob s))
   \<and> (render_loop L cam frames t = Inr t1 \<longrightarrow>
      vertices (glob t1) = vertices (glob t) \<and> indicies (glob t1) = indicies (glob t)
      \<and> drawObjects (glob t1) = drawObjects (glob t))"
proof (intro conjI impI)
  let ?same = "\<lambda>a b. vertices (glob b) = vertices (glob a) \<and> indicies (glob b) = indicies (glob a)
      \<and> drawObjects (glob b) = drawObjects (glob a)"
  have one: "?same a b" if "render L cam f a = Inr b" for f a b
    using render_result [OF that] by auto
  {
    assume "render L cam fr s = Inr s1"
    from one [OF this]
    show "vertices (glob s1) = vertices (glob s)" "indicies (glob s1) = indicies (glob s)"
      "drawObjects (glob s1) = drawObjects (glob s)"
      by simp_all
  }
  assume "render_loop L cam frames t = Inr t1"
  then have "for_each frames (render L cam) t = Inr t1" by (simp add: render_loop_def)
  then have "?same t t1"
    by (rule for_each_invariant [where P = "?same t"]) (use one in auto)
  then show "vertices (glob t1) = vertices (glob t)" "indicies (glob t1) = indicies (glob t)"
    "drawObjects (glob t1) = drawObjects (glob t)"
    by simp_all
qed

lemma sample_render_run:
  "render_loop host host_camera sample_frames (init 2 sample_globals) = Inr sample_rendered"
  by code_simp

lemma sample_render_again:
  "render host host_camera \<lparr>width = 800, height = 600, time = 5, imageIndex = 1\<rparr> sample_rendered
     = Inr sample_rendered"
  by code_simp

theorem render_keeps_buffers_witness:
  "render host host_camera \<lparr>width = 800, height = 600, time = 5, imageIndex = 1\<rparr> sample_rendered
     = Inr sample_rendered
   \<and> render_loop host host_camera sample_frames (init 2 sample_globals) = Inr sample_rendered
   \<and> vertices (glob sample_rendered) = vertices (glob (init 2 sample_globals))
   \<and> indicies (glob sample_rendered) = indicies (glob (init 2 sample_globals))
   \<and> drawObjects (glob sample_rendered) = drawObjects (glob (init 2 sample_globals))
   \<and> drawObjects (glob sample_rendered) = drawObjects sample_globals"
  using render_keeps_buffers [where L = host and cam = host_camera
      and fr = "\<lparr>width = 800, height = 600, time = 5, imageIndex = 1\<rparr>"
      and s = sample_rendered and ?s1.0 = sample_rendered and frames = sample_frames
      and t = "init 2 sample_globals" and ?t1.0 = sample_rendered]
    sample_render_again sample_render_run
  by (simp add: init_def)

lemma write_uniforms_returns:
  assumes "0 \<le> i" and "i + int (length ds) \<le> 2147483647"
    and "img * length (drawObjects g) + nat i + length ds \<le> length ub"
  shows "\<exists>ub'. write_uniforms L img g i ds ub = Inr ub'"
  using assms
proof (induction ds arbitrary: i ub)
  case Nil
  then show ?case by simp
next
  case (Cons d ds)
  let ?slot = "img * length (drawObjects g) + nat i"
  let ?written = "ub[?slot := Some \<lparr>modelMtx = transform d,
                                     viewProjMtx = mat4_mul L (projMtx g) (viewMtx g)\<rparr>]"
  have slot: "?slot < length ub" and i1: "\<not> i + 1 > 2147483647"
    using Cons.prems by simp_all
  have "\<exists>ub'. write_uniforms L img g (i + 1) ds ?written = Inr ub'"
  proof (rule Cons.IH)
    show "0 \<le> i + 1" using Cons.prems(1) by simp
    show "i + 1 + int (length ds) \<le> 2147483647" using Cons.prems(2) by simp
    have "nat (i + 1) = Suc (nat i)" using Cons.prems(1) by simp
    then show "img * length (drawObjects g) + nat (i + 1) + length ds \<le> length ?written"
      using Cons.prems(3) by simp
  qed
  with slot i1 show ?case by (simp add: Let_def)
qed

lemma record_draws_returns:
  assumes "0 \<le> i" and "i + int (length ds) \<le> 2147483647"
  shows "\<exists>cmds. record_draws img n i ds = (Inr cmds :: ('f, 'm) app error + cmd list)"
  using assms
proof (induction ds arbitrary: i)
  case Nil
  then show ?case by simp
next
  case (Cons d ds)
  have "\<exists>cmds. record_draws img n (i + 1) ds = (Inr cmds :: ('f, 'm) app error + cmd list)"
  proof (rule Cons.IH)
    show "0 \<le> i + 1" using Cons.prems(1) by simp
    show "i + 1 + int (length ds) \<le> 2147483647" using Cons.prems(2) by simp
  qed
  moreover have "\<not> i + 1 > 2147483647" using Cons.prems by simp
  ultimately show ?case by auto
qed

lemma render_returns:
  fixes s :: "('f, 'm) app"
  assumes fb: "imageIndex fr < framebuffers s"
    and slots: "Suc (imageIndex fr) * length (drawObjects (glob s)) \<le> length (uniformBufferGPU s)"
    and n: "length (drawObjects (glob s)) \<le> 2147483647"
  shows "\<exists>s'. render L cam fr s = Inr s'"
proof -
  let ?g = "(glob s)\<lparr>viewMtx := lookAt_at cam (time fr),
                      projMtx := perspective_for cam (width fr) (height fr)\<rparr>"
  have "\<exists>ub. write_uniforms L (imageIndex fr) ?g 0 (drawObjects ?g) (uniformBufferGPU s) = Inr ub"
    using slots n by (intro write_uniforms_returns) simp_all
  then obtain ub where
    ub: "write_uniforms L (imageIndex fr) ?g 0 (drawObjects ?g) (uniformBufferGPU s) = Inr ub" ..
  have "\<exists>cmds. record_draws (imageIndex fr) (length (drawObjects ?g)) 0 (drawObjects ?g)
          = (Inr cmds :: ('f, 'm) app error + cmd list)"
    using n by (intro record_draws_returns) simp_all
  then obtain cmds where
    cmds: "record_draws (imageIndex fr) (length (drawObjects ?g)) 0 (drawObjects ?g)
          = (Inr cmds :: ('f, 'm) app error + cmd list)" ..
  show ?thesis
    unfolding render_def Let_def using ub cmds fb by simp
qed

lemma sample_first_frame_run:
  "render host host_camera \<lparr>width = 800, height = 600, time = 0, imageIndex = 0\<rparr>
     (init 2 sample_globals) = Inr sample_first_frame"
  by code_simp

text \<open>
  C5. The render callback returns for a frame whenever the image has a framebuffer, the
  uniform buffer has the slots of that image and the draw commands are at most INT\_MAX,
  as is the case after the init callback for every image of the swapchain. When it has
  returned for a frame, the globals \<open>viewMtx\<close> and \<open>projMtx\<close> are the ones computed from
  that frame's time and size; for every draw command \<open>i\<close> the slot
  \<open>imageIndex * |drawObjects| + i\<close> of the uniform buffer holds the transform of
  \<open>drawObjects[i]\<close> as \<open>modelMtx\<close> and the product of that projection and view as
  \<open>viewProjMtx\<close>; every other slot is as before.
\<close>

theorem uniforms_per_frame:
  "(imageIndex fr < framebuffers s
      \<and> Suc (imageIndex fr) * length (drawObjects (glob s)) \<le> length (uniformBufferGPU s)
      \<and> length (drawObjects (glob s)) \<le> 2147483647
      \<longrightarrow> (\<exists>s'. render L cam fr s = Inr s'))
   \<and> (imageIndex fr < swapchainImages \<and> length (drawObjects g) \<le> 2147483647
      \<longrightarrow> (\<exists>s'. render L cam fr (init swapchainImages g) = Inr s'))
   \<and> (render L cam fr s = Inr s' \<longrightarrow>
      viewMtx (glob s') = lookAt_at cam (time fr)
      \<and> projMtx (glob s') = perspective_for cam (width fr) (height fr)
      \<and> length (uniformBufferGPU s') = length (uniformBufferGPU s)
      \<and> (\<forall>i < length (drawObjects (glob s)).
            imageIndex fr * length (drawObjects (glob s)) + i < length (uniformBufferGPU s')
            \<and> uniformBufferGPU s' ! (imageIndex fr * length (drawObjects (glob s)) + i)
                = Some \<lparr>modelMtx = transform (drawObjects (glob s) ! i),
                        viewProjMtx = mat4_mul L (perspective_for cam (width fr) (height fr))
                                        (lookAt_at cam (time fr))\<rparr>)
      \<and> (\<forall>k. k < imageIndex fr * length (drawObjects (glob s))
                \<or> imageIndex fr * length (drawObjects (glob s)) + length (drawObjects (glob s)) \<le> k
              \<longrightarrow> uniformBufferGPU s' ! k = uniformBufferGPU s ! k))"
proof (intro conjI impI)
  assume "imageIndex fr < framebuffers s
      \<and> Suc (imageIndex fr) * length (drawObjects (glob s)) \<le> length (uniformBufferGPU s)
      \<and> length (drawObjects (glob s)) \<le> 2147483647"
  then show "\<exists>s'. render L cam fr s = Inr s'" by (intro render_returns) simp_all
next
  assume a: "imageIndex fr < swapchainImages \<and> length (drawObjects g) \<le> 2147483647"
  then have "Suc (imageIndex fr) * length (drawObjects g) \<le> swapchainImages * length (drawObjects g)"
    by (intro mult_le_mono1) simp
  with a show "\<exists>s'. render L cam fr (init swapchainImages g) = Inr s'"
    by (intro render_returns) (simp_all add: init_def)
next
  assume run: "render L cam fr s = Inr s'"
  let ?g = "(glob s)\<lparr>viewMtx := lookAt_at cam (time fr),
                      projMtx := perspective_for cam (width fr) (height fr)\<rparr>"
  from render_result [OF run] obtain ub cmds where
    ub: "write_uniforms L (imageIndex fr) ?g 0 (drawObjects (glob s)) (uniformBufferGPU s) = Inr ub"
    and s': "s' = s\<lparr>glob := ?g, uniformBufferGPU := ub, recorded := cmds\<rparr>"
    by blast
  note w = write_uniforms_result [OF ub]
  show "viewMtx (glob s') = lookAt_at cam (time fr)"
    and "projMtx (glob s') = perspective_for cam (width fr) (height fr)"
    by (simp_all add: s')
  show "length (uniformBufferGPU s') = length (uniformBufferGPU s)"
    using w by (simp add: s')
  show "\<forall>i < length (drawObjects (glob s)).
            imageIndex fr * length (drawObjects (glob s)) + i < length (uniformBufferGPU s')
            \<and> uniformBufferGPU s' ! (imageIndex fr * length (drawObjects (glob s)) + i)
                = Some \<lparr>modelMtx = transform (drawObjects (glob s) ! i),
                        viewProjMtx = mat4_mul L (perspective_for cam (width fr) (height fr))
                                        (lookAt_at cam (time fr))\<rparr>"
    using w by (simp add: s')
  show "\<forall>k. k < imageIndex fr * length (drawObjects (glob s))
                \<or> imageIndex fr * length (drawObjects (glob s)) + length (drawObjects (glob s)) \<le> k
              \<longrightarrow> uniformBufferGPU s' ! k = uniformBufferGPU s ! k"
    using w by (simp add: s')
qed

theorem uniforms_per_frame_witness:
  "imageIndex \<lparr>width = 800, height = 600, time = 0 :: int, imageIndex = 0\<rparr> < (2 :: nat)
   \<and> length (drawObjects sample_globals) \<le> 2147483647
   \<and> (\<exists>s'. render host host_camera \<lparr>width = 800, height = 600, time = 0, imageIndex = 0\<rparr>
              (init 2 sample_globals) = Inr s')
   \<and> render host host_camera \<lparr>width = 800, height = 600, time = 0, imageIndex = 0\<rparr>
         (init 2 sample_globals) = Inr sample_first_frame
   \<and> uniformBufferGPU (init 2 sample_globals) = [None, None, None, None]
   \<and> viewMtx (glob sample_first_frame) = lookAt_at host_camera 0
   \<and> projMtx (glob sample_first_frame) = perspective_for host_camera 800 600
   \<and> uniformBufferGPU sample_first_frame ! (0 * length (drawObjects sample_globals) + 0)
       = Some \<lparr>modelMtx = transform (drawObjects sample_globals ! 0),
               viewProjMtx = mat4_mul host (perspective_for host_camera 800 600)
                               (lookAt_at host_camera 0)\<rparr>
   \<and> uniformBufferGPU sample_first_frame ! (0 * length (drawObjects sample_globals) + 1)
       = Some \<lparr>modelMtx = transform (drawObjects sample_globals ! 1),
               viewProjMtx = mat4_mul host (perspective_for host_camera 800 600)
                               (lookAt_at host_camera 0)\<rparr>
   \<and> uniformBufferGPU sample_first_frame ! 2 = uniformBufferGPU (init 2 sample_globals) ! 2
   \<and> uniformBufferGPU sample_first_frame ! 3 = None"
proof -
  let ?fr = "\<lparr>width = 800, height = 600, time = 0 :: int, imageIndex = 0\<rparr>"
  let ?s = "init 2 sample_globals :: (u32, int list) app"
  have n: "length (drawObjects sample_globals) = 2" "drawObjects (glob ?s) = drawObjects sample_globals"
    by (simp_all add: sample_globals_def init_def)
  note frame = uniforms_per_frame [where L = host and cam = host_camera and fr = ?fr
      and s = ?s and s' = sample_first_frame and swapchainImages = 2 and g = sample_globals]
  from frame n have returns: "\<exists>s'. render host host_camera ?fr ?s = Inr s'"
    by simp
  note after = frame [THEN conjunct2, THEN conjunct2, rule_format, OF sample_first_frame_run]
  have slot: "uniformBufferGPU sample_first_frame ! (0 * length (drawObjects sample_globals) + i)
       = Some \<lparr>modelMtx = transform (drawObjects sample_globals ! i),
               viewProjMtx = mat4_mul host (perspective_for host_camera 800 600)
                               (lookAt_at host_camera 0)\<rparr>"
    if "i < 2" for i
    using after [THEN conjunct2, THEN conjunct2, THEN conjunct2, THEN conjunct1,
        rule_format, of i] that n
    by simp
  have other: "uniformBufferGPU sample_first_frame ! 2 = uniformBufferGPU ?s ! 2"
    using after [THEN conjunct2, THEN conjunct2, THEN conjunct2, THEN conjunct2,
        rule_format, of 2] n
    by simp
  have views: "viewMtx (glob sample_first_frame) = lookAt_at host_camera 0"
    "projMtx (glob sample_first_frame) = perspective_for host_camera 800 600"
    using after by simp_all
  have before: "uniformBufferGPU ?s = [None, None, None, None]"
    by (simp add: init_def sample_globals_def numeral_eq_Suc)
  have last: "uniformBufferGPU sample_first_frame ! 3 = None"
    by (simp add: sample_first_frame_def)
  from returns views slot [of 0] slot [of 1] other before last sample_first_frame_run n
  show ?thesis by simp
qed

end
